theory Spec2Isabelle
  imports Main "HOL-Library.Word"
begin

unbundle bit_operations_syntax

section \<open>The AArch64 host machine\<close>

text \<open>
  \<^verbatim>\<open>JitArm64_SystemRegisters.cpp\<close> is a code generator: every handler appends host
  instructions to the block being compiled. The handlers are modelled as functions that
  return the list of emitted instructions, in emission order, and the instructions get
  their AArch64 meaning from \<open>exec\<close> below. A property of "the emitted code" is then a
  property of \<open>exec (handler \<dots>)\<close>.
\<close>

type_synonym u32 = "32 word"
type_synonym u64 = "64 word"

text \<open>
  Host registers. The register cache (\<^verbatim>\<open>gpr\<close>) hands out the physical registers:
  \<^verbatim>\<open>gpr.CR(i)\<close> is the register bound to condition field \<open>i\<close>, \<^verbatim>\<open>gpr.R(i)\<close> the
  register bound to guest register \<open>i\<close>, and \<^verbatim>\<open>gpr.GetScopedReg()\<close> a temporary that is
  distinct from every bound register and from every temporary still in scope. The
  temporaries are numbered in the order in which they are locked: with \<open>k\<close> temporaries
  in scope, the next one is \<open>Tmp k\<close>.
\<close>

datatype HostReg = CRh nat | GPRh nat | Tmp nat | ZRh

text \<open>A register operand names a physical register and its view: 32 bits or 64 bits.\<close>

datatype ARM64Reg = Wreg HostReg | Xreg HostReg

fun EncodeRegTo32 :: "ARM64Reg \<Rightarrow> ARM64Reg" where
  "EncodeRegTo32 (Wreg h) = Wreg h"
| "EncodeRegTo32 (Xreg h) = Wreg h"

fun EncodeRegTo64 :: "ARM64Reg \<Rightarrow> ARM64Reg" where
  "EncodeRegTo64 (Wreg h) = Xreg h"
| "EncodeRegTo64 (Xreg h) = Xreg h"

fun Is64Bit :: "ARM64Reg \<Rightarrow> bool" where
  "Is64Bit (Wreg h) = False"
| "Is64Bit (Xreg h) = True"

fun host_of :: "ARM64Reg \<Rightarrow> HostReg" where
  "host_of (Wreg h) = h"
| "host_of (Xreg h) = h"

definition ZR :: ARM64Reg where
  "ZR = Xreg ZRh"

definition WZR :: ARM64Reg where
  "WZR = Wreg ZRh"

definition gpr_CR :: "nat \<Rightarrow> ARM64Reg" where
  "gpr_CR field = Xreg (CRh field)"

definition gpr_R :: "nat \<Rightarrow> ARM64Reg" where
  "gpr_R i = Wreg (GPRh i)"

definition GetScopedReg :: "nat \<Rightarrow> ARM64Reg" where
  "GetScopedReg k = Wreg (Tmp k)"

datatype CCFlags =
    CC_EQ | CC_NEQ | CC_CS | CC_CC | CC_MI | CC_PL | CC_VS | CC_VC
  | CC_HI | CC_LS | CC_GE | CC_LT | CC_GT | CC_LE | CC_AL

text \<open>Slots of the guest register file (\<^verbatim>\<open>PPCSTATE_OFF\<close>, \<^verbatim>\<open>PPCSTATE_OFF_SPR\<close>).\<close>

datatype ppc_off = OFF_fpscr | OFF_Exceptions | OFF_SPR nat

record host_state =
  regs :: "HostReg \<Rightarrow> u64"
  flagN :: bool
  flagZ :: bool
  flagC :: bool
  flagV :: bool
  ppcstate :: "ppc_off \<Rightarrow> u32"

text \<open>
  The instructions the handlers emit. The emitter overloads a mnemonic on its operand
  kinds; here the register form carries the suffix \<open>r\<close>, the \<^verbatim>\<open>LogicalImm\<close> or immediate
  form the suffix \<open>i\<close>, and the form with a shifted register operand
  (\<^verbatim>\<open>ArithOption(reg, ShiftType::LSR, n)\<close>) the suffix \<open>_LSR\<close>; loads and stores with
  \<^verbatim>\<open>IndexType::Unsigned\<close> relative to the guest register file carry the suffix \<open>u\<close>.
\<close>

datatype Instr =
    UBFX ARM64Reg ARM64Reg nat nat
  | BFI ARM64Reg ARM64Reg nat nat
  | CMPr ARM64Reg ARM64Reg
  | CMPi ARM64Reg u64
  | CSET ARM64Reg CCFlags
  | CSEL ARM64Reg ARM64Reg ARM64Reg CCFlags
  | MOVI2R ARM64Reg u64
  | MOVr ARM64Reg ARM64Reg
  | ANDi ARM64Reg ARM64Reg u64
  | ORRi ARM64Reg ARM64Reg u64
  | EORi ARM64Reg ARM64Reg u64
  | TSTi ARM64Reg u64
  | ANDr ARM64Reg ARM64Reg ARM64Reg
  | ORRr ARM64Reg ARM64Reg ARM64Reg
  | EORr ARM64Reg ARM64Reg ARM64Reg
  | BICr ARM64Reg ARM64Reg ARM64Reg
  | ORNr ARM64Reg ARM64Reg ARM64Reg
  | EONr ARM64Reg ARM64Reg ARM64Reg
  | TSTr ARM64Reg ARM64Reg
  | TST_LSR ARM64Reg ARM64Reg nat
  | ADDi ARM64Reg ARM64Reg u64
  | ADD_LSR ARM64Reg ARM64Reg ARM64Reg nat
  | UMULH ARM64Reg ARM64Reg ARM64Reg
  | UDIV ARM64Reg ARM64Reg ARM64Reg
  | SDIV ARM64Reg ARM64Reg ARM64Reg
  | LSR ARM64Reg ARM64Reg nat
  | LDRu ARM64Reg ppc_off
  | STRu ARM64Reg ppc_off
  | CALL_RoundingModeUpdated

text \<open>
  \<open>CALL_RoundingModeUpdated\<close> stands for the call of \<^verbatim>\<open>PowerPC::RoundingModeUpdated\<close>
  that \<^verbatim>\<open>UpdateRoundingMode\<close> emits between saving and restoring the caller-saved
  registers: it sets the host's floating-point control from the guest's and leaves the
  registers and the guest register file of this model as they are.
\<close>

text \<open>Reading a register: the zero register reads 0, a 32-bit view reads the low half.\<close>

definition rd_reg :: "host_state \<Rightarrow> ARM64Reg \<Rightarrow> u64" where
  "rd_reg s r =
     (let v = (if host_of r = ZRh then 0 else regs s (host_of r))
      in if Is64Bit r then v else take_bit 32 v)"

text \<open>
  Writing a register: a write to the zero register is discarded, a write through a
  32-bit view clears the upper half.
\<close>

definition wr_reg :: "ARM64Reg \<Rightarrow> u64 \<Rightarrow> host_state \<Rightarrow> host_state" where
  "wr_reg r v s =
     (if host_of r = ZRh then s
      else s\<lparr>regs := (regs s)(host_of r := (if Is64Bit r then v else take_bit 32 v))\<rparr>)"

text \<open>The flags of a subtraction \<open>a - b\<close> (\<^verbatim>\<open>CMP\<close>, \<^verbatim>\<open>SUBS\<close>) at the operand width.\<close>

definition sub_flags :: "'a::len word \<Rightarrow> 'a word \<Rightarrow> host_state \<Rightarrow> host_state" where
  "sub_flags a b s =
     s\<lparr>flagN := (sint (a - b) < 0),
       flagZ := (a = b),
       flagC := (b \<le> a),
       flagV := (sint a - sint b \<noteq> sint (a - b))\<rparr>"

definition cmp_flags :: "bool \<Rightarrow> u64 \<Rightarrow> u64 \<Rightarrow> host_state \<Rightarrow> host_state" where
  "cmp_flags is64 a b s =
     (if is64 then sub_flags a b s
      else sub_flags (ucast a :: u32) (ucast b :: u32) s)"

text \<open>The flags of a logical operation (\<^verbatim>\<open>TST\<close>, \<^verbatim>\<open>ANDS\<close>): C and V are cleared.\<close>

definition logic_flags :: "bool \<Rightarrow> u64 \<Rightarrow> host_state \<Rightarrow> host_state" where
  "logic_flags is64 r s =
     (let v = (if is64 then r else take_bit 32 r)
      in s\<lparr>flagN := bit v (if is64 then 63 else 31),
           flagZ := (v = 0),
           flagC := False,
           flagV := False\<rparr>)"

fun cond_holds :: "CCFlags \<Rightarrow> host_state \<Rightarrow> bool" where
  "cond_holds CC_EQ s = flagZ s"
| "cond_holds CC_NEQ s = (\<not> flagZ s)"
| "cond_holds CC_CS s = flagC s"
| "cond_holds CC_CC s = (\<not> flagC s)"
| "cond_holds CC_MI s = flagN s"
| "cond_holds CC_PL s = (\<not> flagN s)"
| "cond_holds CC_VS s = flagV s"
| "cond_holds CC_VC s = (\<not> flagV s)"
| "cond_holds CC_HI s = (flagC s \<and> \<not> flagZ s)"
| "cond_holds CC_LS s = (\<not> (flagC s \<and> \<not> flagZ s))"
| "cond_holds CC_GE s = (flagN s = flagV s)"
| "cond_holds CC_LT s = (flagN s \<noteq> flagV s)"
| "cond_holds CC_GT s = (\<not> flagZ s \<and> flagN s = flagV s)"
| "cond_holds CC_LE s = (\<not> (\<not> flagZ s \<and> flagN s = flagV s))"
| "cond_holds CC_AL s = True"

text \<open>
  Bit-field insert: bits \<open>lsb \<dots> lsb + width - 1\<close> of the destination become the low
  \<open>width\<close> bits of the source; the other bits of the destination stay.
\<close>

definition bfi_val :: "u64 \<Rightarrow> u64 \<Rightarrow> nat \<Rightarrow> nat \<Rightarrow> u64" where
  "bfi_val d n lsb width =
     (d AND NOT (push_bit lsb (mask width))) OR push_bit lsb (take_bit width n)"

definition umulh_val :: "u64 \<Rightarrow> u64 \<Rightarrow> u64" where
  "umulh_val a b = word_of_nat (unat a * unat b div 2 ^ 64)"

text \<open>
  Signed division truncates towards zero; division by zero yields 0 on AArch64.
\<close>

definition sdiv_val :: "u64 \<Rightarrow> u64 \<Rightarrow> u64" where
  "sdiv_val a b =
     (if b = 0 then 0
      else word_of_int (sgn (sint a) * sgn (sint b) * (\<bar>sint a\<bar> div \<bar>sint b\<bar>)))"

text \<open>
  Loads and stores of the guest register file. A 32-bit access moves one slot. A 64-bit
  store to a special-purpose register slot also fills the slot after it with the upper
  half, as the source's store of the whole time base to \<^verbatim>\<open>SPR_TL\<close> relies on.
\<close>

definition ldr_val :: "host_state \<Rightarrow> bool \<Rightarrow> ppc_off \<Rightarrow> u64" where
  "ldr_val s is64 off =
     (case off of
        OFF_SPR n \<Rightarrow>
          (if is64 then ucast (ppcstate s (OFF_SPR n)) OR push_bit 32 (ucast (ppcstate s (OFF_SPR (n + 1))))
           else ucast (ppcstate s (OFF_SPR n)))
      | _ \<Rightarrow> ucast (ppcstate s off))"

definition str_val :: "bool \<Rightarrow> ppc_off \<Rightarrow> u64 \<Rightarrow> host_state \<Rightarrow> host_state" where
  "str_val is64 off v s =
     (case off of
        OFF_SPR n \<Rightarrow>
          (if is64
           then s\<lparr>ppcstate := (ppcstate s)(OFF_SPR n := ucast v, OFF_SPR (n + 1) := ucast (drop_bit 32 v))\<rparr>
           else s\<lparr>ppcstate := (ppcstate s)(OFF_SPR n := ucast v)\<rparr>)
      | _ \<Rightarrow> s\<lparr>ppcstate := (ppcstate s)(off := ucast v)\<rparr>)"

fun exec_instr :: "Instr \<Rightarrow> host_state \<Rightarrow> host_state" where
  "exec_instr (UBFX rd rn lsb width) s = wr_reg rd (take_bit width (drop_bit lsb (rd_reg s rn))) s"
| "exec_instr (BFI rd rn lsb width) s = wr_reg rd (bfi_val (rd_reg s rd) (rd_reg s rn) lsb width) s"
| "exec_instr (CMPr rn rm) s = cmp_flags (Is64Bit rn) (rd_reg s rn) (rd_reg s rm) s"
| "exec_instr (CMPi rn imm) s = cmp_flags (Is64Bit rn) (rd_reg s rn) imm s"
| "exec_instr (CSET rd c) s = wr_reg rd (of_bool (cond_holds c s)) s"
| "exec_instr (CSEL rd rn rm c) s = wr_reg rd (if cond_holds c s then rd_reg s rn else rd_reg s rm) s"
| "exec_instr (MOVI2R rd imm) s = wr_reg rd imm s"
| "exec_instr (MOVr rd rm) s = wr_reg rd (rd_reg s rm) s"
| "exec_instr (ANDi rd rn imm) s = wr_reg rd (rd_reg s rn AND imm) s"
| "exec_instr (ORRi rd rn imm) s = wr_reg rd (rd_reg s rn OR imm) s"
| "exec_instr (EORi rd rn imm) s = wr_reg rd (rd_reg s rn XOR imm) s"
| "exec_instr (TSTi rn imm) s = logic_flags (Is64Bit rn) (rd_reg s rn AND imm) s"
| "exec_instr (ANDr rd rn rm) s = wr_reg rd (rd_reg s rn AND rd_reg s rm) s"
| "exec_instr (ORRr rd rn rm) s = wr_reg rd (rd_reg s rn OR rd_reg s rm) s"
| "exec_instr (EORr rd rn rm) s = wr_reg rd (rd_reg s rn XOR rd_reg s rm) s"
| "exec_instr (BICr rd rn rm) s = wr_reg rd (rd_reg s rn AND NOT (rd_reg s rm)) s"
| "exec_instr (ORNr rd rn rm) s = wr_reg rd (rd_reg s rn OR NOT (rd_reg s rm)) s"
| "exec_instr (EONr rd rn rm) s = wr_reg rd (rd_reg s rn XOR NOT (rd_reg s rm)) s"
| "exec_instr (TSTr rn rm) s = logic_flags (Is64Bit rn) (rd_reg s rn AND rd_reg s rm) s"
| "exec_instr (TST_LSR rn rm sh) s =
     logic_flags (Is64Bit rn) (rd_reg s rn AND drop_bit sh (rd_reg s rm)) s"
| "exec_instr (ADDi rd rn imm) s = wr_reg rd (rd_reg s rn + imm) s"
| "exec_instr (ADD_LSR rd rn rm sh) s = wr_reg rd (rd_reg s rn + drop_bit sh (rd_reg s rm)) s"
| "exec_instr (UMULH rd rn rm) s = wr_reg rd (umulh_val (rd_reg s rn) (rd_reg s rm)) s"
| "exec_instr (UDIV rd rn rm) s = wr_reg rd (rd_reg s rn div rd_reg s rm) s"
| "exec_instr (SDIV rd rn rm) s = wr_reg rd (sdiv_val (rd_reg s rn) (rd_reg s rm)) s"
| "exec_instr (LSR rd rn sh) s = wr_reg rd (drop_bit sh (rd_reg s rn)) s"
| "exec_instr (LDRu rt off) s = wr_reg rt (ldr_val s (Is64Bit rt) off) s"
| "exec_instr (STRu rt off) s = str_val (Is64Bit rt) off (rd_reg s rt) s"
| "exec_instr CALL_RoundingModeUpdated s = s"

fun exec :: "Instr list \<Rightarrow> host_state \<Rightarrow> host_state" where
  "exec [] s = s"
| "exec (i # is) s = exec is (exec_instr i s)"

text \<open>
  The branches the handlers hand back as a \<^verbatim>\<open>FixupBranch\<close>, and whether each is taken.
\<close>

datatype Branch =
    TBNZ ARM64Reg nat
  | TBZ ARM64Reg nat
  | CBZ ARM64Reg
  | CBNZ ARM64Reg
  | Bcc CCFlags

fun branch_taken :: "Branch \<Rightarrow> host_state \<Rightarrow> bool" where
  "branch_taken (TBNZ r n) s = bit (rd_reg s r) n"
| "branch_taken (TBZ r n) s = (\<not> bit (rd_reg s r) n)"
| "branch_taken (CBZ r) s = (rd_reg s r = 0)"
| "branch_taken (CBNZ r) s = (rd_reg s r \<noteq> 0)"
| "branch_taken (Bcc c) s = cond_holds c s"

section \<open>Condition fields\<close>

text \<open>
  The bit numbers of a condition field (\<^verbatim>\<open>PowerPC::CR_SO_BIT\<close> \<dots>) and the positions
  of SO and LT in the packed 64-bit word (\<^verbatim>\<open>PowerPC::CR_EMU_SO_BIT\<close>,
  \<^verbatim>\<open>PowerPC::CR_EMU_LT_BIT\<close>) are declared in \<^verbatim>\<open>ConditionRegister.h\<close>. The source fixes
  them: it asserts \<^verbatim>\<open>CR_SO_BIT == 0\<close>, \<^verbatim>\<open>CR_LT_BIT == 3\<close> and
  \<^verbatim>\<open>CR_EMU_LT_BIT - CR_EMU_SO_BIT == 3\<close>, its comments name bits 59 and 62, and EQ and
  GT are bits 1 and 2 of the architectural nibble.
\<close>

definition CR_SO_BIT :: nat where "CR_SO_BIT = 0"
definition CR_EQ_BIT :: nat where "CR_EQ_BIT = 1"
definition CR_GT_BIT :: nat where "CR_GT_BIT = 2"
definition CR_LT_BIT :: nat where "CR_LT_BIT = 3"
definition CR_EMU_SO_BIT :: nat where "CR_EMU_SO_BIT = 59"
definition CR_EMU_LT_BIT :: nat where "CR_EMU_LT_BIT = 62"

text \<open>
  \<^verbatim>\<open>GetCRFieldBit(field, bit, out)\<close>. An invalid bit number fails the assertion
  \<^verbatim>\<open>"Invalid CR bit"\<close> and emits nothing.
\<close>

definition GetCRFieldBit :: "nat \<Rightarrow> nat \<Rightarrow> ARM64Reg \<Rightarrow> Instr list" where
  "GetCRFieldBit field b out =
     (let CR = gpr_CR field; WCR = EncodeRegTo32 CR in
      if b = CR_SO_BIT then [UBFX out CR CR_EMU_SO_BIT 1]
      else if b = CR_EQ_BIT then [CMPr WCR WZR, CSET out CC_EQ]
      else if b = CR_GT_BIT then [CMPr CR ZR, CSET out CC_GT]
      else if b = CR_LT_BIT then [UBFX out CR CR_EMU_LT_BIT 1]
      else [])"

text \<open>\<^verbatim>\<open>FixGTBeforeSettingCRFieldBit(reg)\<close>, with \<open>k\<close> temporaries in scope.\<close>

definition FixGTBeforeSettingCRFieldBit :: "nat \<Rightarrow> ARM64Reg \<Rightarrow> Instr list" where
  "FixGTBeforeSettingCRFieldBit k reg =
     (let WA = GetScopedReg k; XA = EncodeRegTo64 WA in
      [MOVI2R XA (push_bit 63 1), CMPr reg ZR, CSEL reg reg XA CC_NEQ])"

text \<open>
  \<^verbatim>\<open>SetCRFieldBit(field, bit, in, negate, bits_1_to_31_are_set)\<close>: the flag is written
  from the register \<open>in\<close>.
\<close>

definition SetCRFieldBit :: "nat \<Rightarrow> nat \<Rightarrow> nat \<Rightarrow> ARM64Reg \<Rightarrow> bool \<Rightarrow> bool \<Rightarrow> Instr list" where
  "SetCRFieldBit k field b inr negate bits_1_to_31_are_set =
     (let CR = gpr_CR field in
      (if b \<noteq> CR_GT_BIT then FixGTBeforeSettingCRFieldBit k CR else []) @
      (if b = CR_SO_BIT then
         BFI CR inr CR_EMU_SO_BIT 1 #
         (if negate then [EORi CR CR (push_bit CR_EMU_SO_BIT 1)] else [])
       else if b = CR_EQ_BIT then
         [ANDi CR CR 0xFFFFFFFF00000000, ORRr CR CR inr] @
         (if \<not> negate then [EORi CR CR (if bits_1_to_31_are_set then 0xFFFFFFFF else 1)]
          else if bits_1_to_31_are_set then [ANDi CR CR 0xFFFFFFFF00000001]
          else [])
       else if b = CR_GT_BIT then
         BFI CR inr 63 1 #
         (if \<not> negate then [EORi CR CR (push_bit 63 1)] else [])
       else if b = CR_LT_BIT then
         BFI CR inr CR_EMU_LT_BIT 1 #
         (if negate then [EORi CR CR (push_bit CR_EMU_LT_BIT 1)] else [])
       else []) @
      [ORRi CR CR (push_bit 32 1)])"

text \<open>\<^verbatim>\<open>ClearCRFieldBit(field, bit)\<close>.\<close>

definition ClearCRFieldBit :: "nat \<Rightarrow> nat \<Rightarrow> nat \<Rightarrow> Instr list" where
  "ClearCRFieldBit k field b =
     (let XA = gpr_CR field in
      if b = CR_SO_BIT then [ANDi XA XA (NOT (push_bit CR_EMU_SO_BIT 1))]
      else if b = CR_EQ_BIT then FixGTBeforeSettingCRFieldBit k XA @ [ORRi XA XA 1]
      else if b = CR_GT_BIT then [ORRi XA XA (push_bit 63 1)]
      else if b = CR_LT_BIT then [ANDi XA XA (NOT (push_bit CR_EMU_LT_BIT 1))]
      else [])"

text \<open>\<^verbatim>\<open>SetCRFieldBit(field, bit)\<close>: the flag is set to true.\<close>

definition SetCRFieldBit_lit :: "nat \<Rightarrow> nat \<Rightarrow> nat \<Rightarrow> Instr list" where
  "SetCRFieldBit_lit k field b =
     (let XA = gpr_CR field in
      (if b \<noteq> CR_GT_BIT then FixGTBeforeSettingCRFieldBit k XA else []) @
      (if b = CR_SO_BIT then [ORRi XA XA (push_bit CR_EMU_SO_BIT 1)]
       else if b = CR_EQ_BIT then [ANDi XA XA 0xFFFFFFFF00000000]
       else if b = CR_GT_BIT then [ANDi XA XA (NOT (push_bit 63 1))]
       else if b = CR_LT_BIT then [ORRi XA XA (push_bit CR_EMU_LT_BIT 1)]
       else []) @
      [ORRi XA XA (push_bit 32 1)])"

text \<open>
  \<^verbatim>\<open>JumpIfCRFieldBit(field, bit, jump_if_set)\<close>: the instructions emitted before the
  branch, and the branch. An invalid bit number fails the assertion and yields no branch.
\<close>

definition JumpIfCRFieldBit :: "nat \<Rightarrow> nat \<Rightarrow> bool \<Rightarrow> (Instr list \<times> Branch) option" where
  "JumpIfCRFieldBit field b jump_if_set =
     (let XA = gpr_CR field; WA = EncodeRegTo32 XA in
      if b = CR_SO_BIT then
        Some ([], if jump_if_set then TBNZ XA CR_EMU_SO_BIT else TBZ XA CR_EMU_SO_BIT)
      else if b = CR_EQ_BIT then
        Some ([], if jump_if_set then CBZ WA else CBNZ WA)
      else if b = CR_GT_BIT then
        Some ([CMPi XA 0], Bcc (if jump_if_set then CC_GT else CC_LE))
      else if b = CR_LT_BIT then
        Some ([], if jump_if_set then TBNZ XA CR_EMU_LT_BIT else TBZ XA CR_EMU_LT_BIT)
      else None)"

text \<open>
  The packed word of condition field \<open>field\<close> in a host state, and the 32-bit value that
  the register \<open>h\<close> holds (the FPSCR, in the handlers that load it into a register).
\<close>

definition cr_word :: "host_state \<Rightarrow> nat \<Rightarrow> u64" where
  "cr_word s field = rd_reg s (gpr_CR field)"

definition fpscr_of :: "host_state \<Rightarrow> HostReg \<Rightarrow> u32" where
  "fpscr_of s h = ucast (regs s h)"

text \<open>
  The flag \<open>b\<close> of a packed word, as the source's comments in \<^verbatim>\<open>GetCRFieldBit\<close> give it:
  SO is bit 59, EQ says that bits 31-0 are zero, GT that the value is greater than zero
  as a signed number, LT is bit 62.
\<close>

definition CRFlag :: "u64 \<Rightarrow> nat \<Rightarrow> bool" where
  "CRFlag w b =
     (if b = CR_SO_BIT then bit w CR_EMU_SO_BIT
      else if b = CR_EQ_BIT then (ucast w :: u32) = 0
      else if b = CR_GT_BIT then 0 < sint w
      else if b = CR_LT_BIT then bit w CR_EMU_LT_BIT
      else False)"

text \<open>
  The guest's condition register bit \<open>i\<close> (0 \<dots> 31, as \<^verbatim>\<open>CRBA\<close>, \<^verbatim>\<open>CRBB\<close> and \<^verbatim>\<open>CRBD\<close>
  number it): flag \<^verbatim>\<open>3 - (i & 3)\<close> of field \<^verbatim>\<open>i >> 2\<close>.
\<close>

definition guest_cr_bit :: "host_state \<Rightarrow> nat \<Rightarrow> bool" where
  "guest_cr_bit s i = CRFlag (cr_word s (drop_bit 2 i)) (3 - (i AND 3))"

text \<open>Whether the branch of \<^verbatim>\<open>JumpIfCRFieldBit\<close> is taken from a state.\<close>

definition jump_taken :: "(Instr list \<times> Branch) option \<Rightarrow> host_state \<Rightarrow> bool option" where
  "jump_taken j s = map_option (\<lambda>(pre, br). branch_taken br (exec pre s)) j"

section \<open>Guest instructions and constants of the guest architecture\<close>

text \<open>
  \<^verbatim>\<open>UGeckoInstruction\<close> is declared in \<^verbatim>\<open>Gekko.h\<close>; the handlers read it through its
  bit-field members only. The record has one field for each member they read.
\<close>

record UGeckoInstruction =
  OPCD :: nat
  SUBOP10 :: nat
  RD :: nat
  RA :: nat
  RB :: nat
  TO :: nat
  SIMM_16 :: "16 word"
  SPRU :: nat
  SPRL :: nat
  CRBD :: nat
  CRBA :: nat
  CRBB :: nat
  Rc :: bool

text \<open>
  The constants of \<^verbatim>\<open>Gekko.h\<close> and \<^verbatim>\<open>ExceptionUtils.h\<close> that the handlers use are
  not among the sources. The handlers take them from this record, so every theorem
  below holds for whatever values the headers give them.
\<close>

record gekko_consts =
  FPSCR_FEX :: u32
  FPSCR_VX :: u32
  FPSCR_VX_ANY :: u32
  FPSCR_ANY_X :: u32
  FPSCR_ANY_E :: u32
  SPR_TL :: nat
  SPR_TU :: nat
  SPR_SRR1 :: nat
  EXCEPTION_PROGRAM :: u32
  ProgramExceptionCause_Trap :: u32

text \<open>
  The values of the PowerPC architecture, for concrete runs: FPSCR bit \<open>i\<close> in the
  architecture's numbering is \<^verbatim>\<open>1 << (31 - i)\<close>, with FEX = 1, VX = 2, OX \<dots> XX = 3 \<dots> 6,
  the invalid-operation causes 7 \<dots> 12 and 21 \<dots> 23, and the enables VE \<dots> XE = 24 \<dots> 28;
  the time base is special-purpose register 268 (lower) and 269 (upper).
\<close>

definition gekko :: gekko_consts where
  "gekko =
     \<lparr>FPSCR_FEX = 0x40000000,
      FPSCR_VX = 0x20000000,
      FPSCR_VX_ANY = 0x01F80700,
      FPSCR_ANY_X = 0x1FF80700,
      FPSCR_ANY_E = 0x000000F8,
      SPR_TL = 268,
      SPR_TU = 269,
      SPR_SRR1 = 27,
      EXCEPTION_PROGRAM = 0x00000080,
      ProgramExceptionCause_Trap = 0x00020000\<rparr>"

text \<open>The instruction whose fields are all zero, for concrete runs.\<close>

definition inst0 :: UGeckoInstruction where
  "inst0 =
     \<lparr>OPCD = 0, SUBOP10 = 0, RD = 0, RA = 0, RB = 0, TO = 0, SIMM_16 = 0, SPRU = 0, SPRL = 0,
      CRBD = 0, CRBA = 0, CRBB = 0, Rc = False\<rparr>"

text \<open>
  The part of \<^verbatim>\<open>JitState\<close> (\<^verbatim>\<open>js\<close>) that the handlers read and write, and the state
  at the start of a block, for concrete runs.
\<close>

record JitState =
  compilerPC :: nat
  downcountAmount :: nat
  skipInstructions :: nat

definition js0 :: JitState where
  "js0 = \<lparr>compilerPC = 0, downcountAmount = 0, skipInstructions = 0\<rparr>"

text \<open>
  Every handler starts with \<^verbatim>\<open>INSTRUCTION_START\<close> and
  \<^verbatim>\<open>JITDISABLE(bJITSystemRegistersOff)\<close>, and some go on with \<^verbatim>\<open>FALLBACK_IF(\<dots>)\<close>: when
  the setting or the condition holds, the instruction is handed to the interpreter and
  the handler emits nothing of its own. A handler returns \<open>None\<close> then, and \<open>Some\<close> of the
  emitted code otherwise.
\<close>

definition run :: "Instr list option \<Rightarrow> host_state \<Rightarrow> host_state option" where
  "run code s = map_option (\<lambda>is. exec is s) code"

text \<open>
  Host states for concrete runs: in \<open>reg_state w\<close> every register holds \<open>w\<close>, the flags
  are clear and the guest register file is zero; in \<open>gpr_state g\<close> the register bound to
  guest register \<open>i\<close> holds \<open>g i\<close> and every other register 0; in \<open>fpscr_state f\<close> every
  register holds 0 and the guest's FPSCR slot holds \<open>f\<close>.
\<close>

definition reg_state :: "u64 \<Rightarrow> host_state" where
  "reg_state w =
     \<lparr>regs = (\<lambda>h. w),
      flagN = False, flagZ = False, flagC = False, flagV = False,
      ppcstate = (\<lambda>off. 0)\<rparr>"

definition gpr_state :: "(nat \<Rightarrow> u64) \<Rightarrow> host_state" where
  "gpr_state g =
     \<lparr>regs = (\<lambda>h. case h of GPRh i \<Rightarrow> g i | _ \<Rightarrow> 0),
      flagN = False, flagZ = False, flagC = False, flagV = False,
      ppcstate = (\<lambda>off. 0)\<rparr>"

definition fpscr_state :: "u32 \<Rightarrow> host_state" where
  "fpscr_state f =
     \<lparr>regs = (\<lambda>h. 0),
      flagN = False, flagZ = False, flagC = False, flagV = False,
      ppcstate = (\<lambda>off. case off of OFF_fpscr \<Rightarrow> f | _ \<Rightarrow> 0)\<rparr>"

text \<open>The guest's condition register bit \<open>i\<close> after the code of a handler has run.\<close>

definition cr_bit_after :: "Instr list option \<Rightarrow> host_state \<Rightarrow> nat \<Rightarrow> bool option" where
  "cr_bit_after code s i = map_option (\<lambda>s'. guest_cr_bit s' i) (run code s)"

section \<open>Two-operand condition register logic\<close>

text \<open>
  \<^verbatim>\<open>crXXX(inst)\<close>. In the general case \<open>combine\<close> is the instruction that the switch
  on the opcode emits, paired with the value it leaves in \<^verbatim>\<open>bits_1_to_31_are_set\<close>.
\<close>

definition crXXX :: "bool \<Rightarrow> UGeckoInstruction \<Rightarrow> Instr list option" where
  "crXXX bJITSystemRegistersOff inst =
     (if bJITSystemRegistersOff then None
      else if CRBA inst = CRBB inst \<and> (SUBOP10 inst = 129 \<or> SUBOP10 inst = 193) then
        Some (ClearCRFieldBit 0 (drop_bit 2 (CRBD inst)) (3 - (CRBD inst AND 3)))
      else if CRBA inst = CRBB inst \<and> (SUBOP10 inst = 289 \<or> SUBOP10 inst = 417) then
        Some (SetCRFieldBit_lit 0 (drop_bit 2 (CRBD inst)) (3 - (CRBD inst AND 3)))
      else if CRBA inst = CRBB inst \<and> (SUBOP10 inst = 257 \<or> SUBOP10 inst = 449) then
        (let WA = GetScopedReg 0; XA = EncodeRegTo64 WA in
         Some (GetCRFieldBit (drop_bit 2 (CRBA inst)) (3 - (CRBA inst AND 3)) XA @
               SetCRFieldBit 1 (drop_bit 2 (CRBD inst)) (3 - (CRBD inst AND 3)) XA False False))
      else if CRBA inst = CRBB inst \<and> (SUBOP10 inst = 33 \<or> SUBOP10 inst = 225) then
        (let WA = GetScopedReg 0; XA = EncodeRegTo64 WA in
         Some (GetCRFieldBit (drop_bit 2 (CRBA inst)) (3 - (CRBA inst AND 3)) XA @
               SetCRFieldBit 1 (drop_bit 2 (CRBD inst)) (3 - (CRBD inst AND 3)) XA True False))
      else
        (let crbd_bit = 3 - (CRBD inst AND 3);
             negate_result =
               (SUBOP10 inst = 33 \<or> SUBOP10 inst = 225 \<or>
                (SUBOP10 inst = 289 \<and> (crbd_bit = CR_EQ_BIT \<or> crbd_bit = CR_GT_BIT)));
             WA = GetScopedReg 0; XA = EncodeRegTo64 WA;
             WB = GetScopedReg 1; XB = EncodeRegTo64 WB;
             combine =
               (if SUBOP10 inst = 225 \<or> SUBOP10 inst = 257 then ([ANDr XA XA XB], False)
                else if SUBOP10 inst = 129 then ([BICr XA XA XB], False)
                else if SUBOP10 inst = 193 then ([EORr XA XA XB], False)
                else if SUBOP10 inst = 289 then
                  (if negate_result then ([EORr XA XA XB], False) else ([EONr WA WA WB], True))
                else if SUBOP10 inst = 33 \<or> SUBOP10 inst = 449 then ([ORRr XA XA XB], False)
                else if SUBOP10 inst = 417 then ([ORNr WA WA WB], True)
                else ([], False));
             bits_1_to_31_are_set = snd combine
         in Some (GetCRFieldBit (drop_bit 2 (CRBA inst)) (3 - (CRBA inst AND 3)) XA @
                  GetCRFieldBit (drop_bit 2 (CRBB inst)) (3 - (CRBB inst AND 3)) XB @
                  fst combine @
                  SetCRFieldBit 1 (drop_bit 2 (CRBD inst)) (3 - (CRBD inst AND 3)) XA
                    negate_result bits_1_to_31_are_set)))"

text \<open>
  The two ways in which \<^verbatim>\<open>crXXX\<close> emits \<^verbatim>\<open>creqv\<close> for distinct source bits, each for
  an arbitrary destination bit \<open>d\<close>: the 64-bit \<^verbatim>\<open>EOR\<close> with \<^verbatim>\<open>negate_result\<close>, and the
  32-bit \<^verbatim>\<open>EON\<close> with \<^verbatim>\<open>bits_1_to_31_are_set\<close>.
\<close>

definition creqv_EOR_form :: "nat \<Rightarrow> nat \<Rightarrow> nat \<Rightarrow> Instr list" where
  "creqv_EOR_form a b d =
     (let WA = GetScopedReg 0; XA = EncodeRegTo64 WA;
          WB = GetScopedReg 1; XB = EncodeRegTo64 WB
      in GetCRFieldBit (drop_bit 2 a) (3 - (a AND 3)) XA @
         GetCRFieldBit (drop_bit 2 b) (3 - (b AND 3)) XB @
         [EORr XA XA XB] @
         SetCRFieldBit 1 (drop_bit 2 d) (3 - (d AND 3)) XA True False)"

definition creqv_EON_form :: "nat \<Rightarrow> nat \<Rightarrow> nat \<Rightarrow> Instr list" where
  "creqv_EON_form a b d =
     (let WA = GetScopedReg 0; XA = EncodeRegTo64 WA;
          WB = GetScopedReg 1; XB = EncodeRegTo64 WB
      in GetCRFieldBit (drop_bit 2 a) (3 - (a AND 3)) XA @
         GetCRFieldBit (drop_bit 2 b) (3 - (b AND 3)) XB @
         [EONr WA WA WB] @
         SetCRFieldBit 1 (drop_bit 2 d) (3 - (d AND 3)) XA False True)"

section \<open>Floating-point status and control register\<close>

text \<open>
  \<^verbatim>\<open>MathUtil::IntLog2\<close> (\<^verbatim>\<open>MathUtil.h\<close>, not among the sources) is the index of the
  highest set bit of its argument. \<open>highest_bit n v\<close> looks for it from bit \<open>n\<close> down.
\<close>

fun highest_bit :: "nat \<Rightarrow> u32 \<Rightarrow> nat" where
  "highest_bit 0 v = 0"
| "highest_bit (Suc n) v = (if bit v (Suc n) then Suc n else highest_bit n v)"

definition IntLog2 :: "u32 \<Rightarrow> nat" where
  "IntLog2 v = highest_bit 31 v"

text \<open>\<^verbatim>\<open>UpdateFPExceptionSummary(fpscr)\<close>, with \<open>k\<close> temporaries in scope.\<close>

definition UpdateFPExceptionSummary :: "gekko_consts \<Rightarrow> nat \<Rightarrow> ARM64Reg \<Rightarrow> Instr list" where
  "UpdateFPExceptionSummary c k fpscr =
     (let WA = GetScopedReg k in
      [MOVI2R WA (ucast (FPSCR_VX_ANY c)),
       TSTr WA fpscr,
       CSET WA CC_NEQ,
       BFI fpscr WA (IntLog2 (FPSCR_VX c)) 1,
       ANDi WA fpscr (ucast (FPSCR_ANY_E c)),
       TST_LSR WA fpscr 22,
       CSET WA CC_NEQ,
       BFI fpscr WA (IntLog2 (FPSCR_FEX c)) 1])"

definition UpdateRoundingMode :: "Instr list" where
  "UpdateRoundingMode = [CALL_RoundingModeUpdated]"

text \<open>\<^verbatim>\<open>mtfsb1x(inst)\<close>.\<close>

definition mtfsb1x :: "gekko_consts \<Rightarrow> bool \<Rightarrow> bool \<Rightarrow> UGeckoInstruction \<Rightarrow> Instr list option" where
  "mtfsb1x c bJITSystemRegistersOff fp_exceptions inst =
     (if bJITSystemRegistersOff \<or> Rc inst \<or> fp_exceptions then None
      else
        (let mask = drop_bit (CRBD inst) (0x80000000 :: u32) in
         if mask = FPSCR_FEX c \<or> mask = FPSCR_VX c then Some []
         else
           (let WA = GetScopedReg 0 in
            Some ([LDRu WA OFF_fpscr] @
                  (if mask AND FPSCR_ANY_X c \<noteq> 0 then
                     (let WB = GetScopedReg 1 in
                      [TSTi WA (ucast mask),
                       ORRi WB WA (push_bit 31 1),
                       CSEL WA WA WB CC_NEQ])
                   else []) @
                  [ORRi WA WA (ucast mask)] @
                  (if mask AND (FPSCR_ANY_X c OR FPSCR_ANY_E c) \<noteq> 0
                   then UpdateFPExceptionSummary c 1 WA else []) @
                  [STRu WA OFF_fpscr] @
                  (if 29 \<le> CRBD inst then UpdateRoundingMode else [])))))"

section \<open>Trap instructions\<close>

text \<open>
  \<^verbatim>\<open>twx\<close> emits a comparison, one conditional branch for every selected condition, and
  two paths: the far code that the conditional branches reach (\<^verbatim>\<open>SetJumpTarget(fixup)\<close>
  for each of them), and the near code after \<^verbatim>\<open>dont_trap\<close>. Besides host instructions
  the paths contain the register caches' flushes and the block exits.
\<close>

datatype FlushMode = FlushAll | MaintainState

datatype BlockOp =
    Emit Instr
  | gpr_Flush FlushMode
  | fpr_Flush FlushMode
  | WriteExceptionExit nat bool bool
  | WriteExit nat

record twx_code =
  tw_compare :: Instr
  tw_fixups :: "CCFlags list"
  tw_far_code :: "BlockOp list"
  tw_near_code :: "BlockOp list"

definition twx_conditions :: "CCFlags list" where
  "twx_conditions = [CC_LT, CC_GT, CC_EQ, CC_VC, CC_VS]"

text \<open>
  \<^verbatim>\<open>twx(inst)\<close>; \<open>conditional_continue\<close> is
  \<^verbatim>\<open>analyzer.HasOption(OPTION_CONDITIONAL_CONTINUE)\<close>. The immediate of \<^verbatim>\<open>twi\<close> is
  \<^verbatim>\<open>(s32)(s16)inst.SIMM_16\<close>, the sign extension of the 16-bit field; \<^verbatim>\<open>CMPI2R\<close>
  compares the register with it (it may load the immediate into the scratch register
  \<^verbatim>\<open>WA\<close> first, which nothing reads afterwards).
\<close>

definition twx :: "gekko_consts \<Rightarrow> bool \<Rightarrow> bool \<Rightarrow> JitState \<Rightarrow> UGeckoInstruction \<Rightarrow> twx_code option" where
  "twx c bJITSystemRegistersOff conditional_continue js inst =
     (if bJITSystemRegistersOff then None
      else
        (let a = RA inst;
             WA = GetScopedReg 0
         in Some
           \<lparr>tw_compare =
              (if OPCD inst = 3 then CMPi (gpr_R a) (scast (SIMM_16 inst))
               else CMPr (gpr_R a) (gpr_R (RB inst))),
            tw_fixups =
              map (\<lambda>i. twx_conditions ! i)
                (filter (\<lambda>i. TO inst AND push_bit i 1 \<noteq> 0) [0..<length twx_conditions]),
            tw_far_code =
              [gpr_Flush MaintainState,
               fpr_Flush MaintainState,
               Emit (LDRu WA OFF_Exceptions),
               Emit (ORRi WA WA (ucast (EXCEPTION_PROGRAM c))),
               Emit (STRu WA OFF_Exceptions),
               Emit (MOVI2R WA (ucast (ProgramExceptionCause_Trap c))),
               Emit (STRu WA (OFF_SPR (SPR_SRR1 c))),
               WriteExceptionExit (compilerPC js) False True],
            tw_near_code =
              (if \<not> conditional_continue
               then [gpr_Flush FlushAll, fpr_Flush FlushAll, WriteExit (compilerPC js + 4)]
               else [])\<rparr>))"

text \<open>
  The emitted code takes the trap path from a state when, after the comparison, one of
  the conditional branches is taken.
\<close>

definition twx_trap_taken :: "twx_code \<Rightarrow> host_state \<Rightarrow> bool" where
  "twx_trap_taken code s =
     list_ex (\<lambda>cc. branch_taken (Bcc cc) (exec_instr (tw_compare code) s)) (tw_fixups code)"

section \<open>Reading the time base\<close>

text \<open>
  The \<^verbatim>\<open>SPR_TL\<close>/\<^verbatim>\<open>SPR_TU\<close> case of \<^verbatim>\<open>mfspr\<close> first computes, with floating-point
  instructions, the number of elapsed ticks into \<^verbatim>\<open>Xresult\<close> and loads the start value
  into \<^verbatim>\<open>XA\<close>. The model takes up the case from there. The temporaries \<^verbatim>\<open>Wg\<close>,
  \<^verbatim>\<open>Wresult\<close>, \<^verbatim>\<open>WA\<close> and \<^verbatim>\<open>WB\<close> are the first four in scope.
\<close>

definition mfspr_timebase_divide :: "gekko_consts \<Rightarrow> Instr list" where
  "mfspr_timebase_divide c =
     (let Wresult = GetScopedReg 1; Xresult = EncodeRegTo64 Wresult;
          WA = GetScopedReg 2; WB = GetScopedReg 3;
          XA = EncodeRegTo64 WA; XB = EncodeRegTo64 WB
      in [ORRi XB ZR 0xAAAAAAAAAAAAAAAA,
          ADDi XB XB 1,
          UMULH Xresult Xresult XB,
          ADD_LSR Xresult XA Xresult 3,
          STRu Xresult (OFF_SPR (SPR_TL c))])"

text \<open>The special-purpose register number of an instruction, as \<^verbatim>\<open>mfspr\<close> decodes it.\<close>

definition spr_index :: "UGeckoInstruction \<Rightarrow> nat" where
  "spr_index inst = push_bit 5 (SPRU inst) OR (SPRL inst AND 0x1F)"

text \<open>The instruction \<^verbatim>\<open>mftb rD, spr\<close>, for concrete runs.\<close>

definition mftb :: "nat \<Rightarrow> nat \<Rightarrow> UGeckoInstruction" where
  "mftb d spr =
     inst0\<lparr>OPCD := 31, SUBOP10 := 371, RD := d,
           SPRU := drop_bit 5 spr, SPRL := take_bit 5 spr\<rparr>"

text \<open>
  The rest of the case: \<open>can_merge\<close> is \<^verbatim>\<open>CanMergeNextInstructions(1)\<close> and \<open>next\<close> is
  \<^verbatim>\<open>js.op[1].inst\<close>. The result is the emitted code and the updated \<^verbatim>\<open>js\<close>.
\<close>

definition mfspr_timebase ::
    "gekko_consts \<Rightarrow> bool \<Rightarrow> JitState \<Rightarrow> UGeckoInstruction \<Rightarrow> UGeckoInstruction \<Rightarrow> Instr list \<times> JitState" where
  "mfspr_timebase c can_merge js inst next =
     (let iIndex = spr_index inst;
          d = RD inst;
          Wresult = GetScopedReg 1; Xresult = EncodeRegTo64 Wresult;
          nextIndex = spr_index next;
          n = RD next
      in if can_merge \<and> OPCD next = 31 \<and> SUBOP10 next = 371 \<and>
            (nextIndex = SPR_TU c \<or> nextIndex = SPR_TL c) \<and> n \<noteq> d
         then
           (mfspr_timebase_divide c @
            [if iIndex = SPR_TL c then MOVr (gpr_R d) Wresult
             else LSR (EncodeRegTo64 (gpr_R d)) Xresult 32,
             if nextIndex = SPR_TL c then MOVr (gpr_R n) Wresult
             else LSR (EncodeRegTo64 (gpr_R n)) Xresult 32],
            js\<lparr>downcountAmount := downcountAmount js + 1, skipInstructions := 1\<rparr>)
         else
           (mfspr_timebase_divide c @
            [if iIndex = SPR_TU c then LSR (EncodeRegTo64 (gpr_R d)) Xresult 32
             else MOVr (gpr_R d) Wresult],
            js))"

text \<open>Whether an instruction divides at run time.\<close>

fun is_division :: "Instr \<Rightarrow> bool" where
  "is_division (UDIV rd rn rm) = True"
| "is_division (SDIV rd rn rm) = True"
| "is_division i = False"

section \<open>Basic facts about the host machine\<close>

lemmas cr_consts = CR_SO_BIT_def CR_EQ_BIT_def CR_GT_BIT_def CR_LT_BIT_def
  CR_EMU_SO_BIT_def CR_EMU_LT_BIT_def

lemmas reg_defs = ZR_def WZR_def gpr_CR_def gpr_R_def GetScopedReg_def

lemma rd_reg_X [simp]: "rd_reg s (Xreg h) = (if h = ZRh then 0 else regs s h)"
  by (simp add: rd_reg_def)

lemma rd_reg_W [simp]: "rd_reg s (Wreg h) = (if h = ZRh then 0 else take_bit 32 (regs s h))"
  by (simp add: rd_reg_def)

lemma wr_reg_X [simp]:
  "wr_reg (Xreg h) v s = (if h = ZRh then s else s\<lparr>regs := (regs s)(h := v)\<rparr>)"
  by (simp add: wr_reg_def)

lemma wr_reg_W [simp]:
  "wr_reg (Wreg h) v s = (if h = ZRh then s else s\<lparr>regs := (regs s)(h := take_bit 32 v)\<rparr>)"
  by (simp add: wr_reg_def)

lemma exec_append: "exec (xs @ ys) s = exec ys (exec xs s)"
  by (induction xs arbitrary: s) simp_all

lemma sint_eq_0 [simp]: "sint (w::'a::len word) = 0 \<longleftrightarrow> w = 0"
  by (simp add: signed_eq_0_iff)

lemma sint_pos_iff: "0 < sint (w::u64) \<longleftrightarrow> \<not> bit w 63 \<and> w \<noteq> 0"
proof -
  have "bit w 63 \<longleftrightarrow> sint w < 0"
    using bit_last_iff [of w] by simp
  moreover have "sint w = 0 \<longleftrightarrow> w = 0"
    by simp
  ultimately show ?thesis by linarith
qed

lemma sint_pos_conv: "0 < sint (w::u64) \<longleftrightarrow> w \<noteq> 0 \<and> \<not> sint w < 0"
  using sint_eq_0 [of w] by (auto simp del: sint_eq_0)

lemma not_GT_iff: "\<not> 0 < sint (w::u64) \<longleftrightarrow> bit w 63 \<or> w = 0"
  by (auto simp add: sint_pos_iff)

lemma flags_cmp64 [simp]:
  "flagZ (cmp_flags True a b s) = (a = b)"
  "flagN (cmp_flags True a b s) = (sint (a - b) < 0)"
  "flagC (cmp_flags True a b s) = (b \<le> a)"
  "flagV (cmp_flags True a b s) = (sint a - sint b \<noteq> sint (a - b))"
  by (simp_all add: cmp_flags_def sub_flags_def)

lemma flags_cmp32 [simp]:
  "flagZ (cmp_flags False a b s) = ((ucast a :: u32) = ucast b)"
  "flagN (cmp_flags False a b s) = (sint ((ucast a :: u32) - ucast b) < 0)"
  "flagC (cmp_flags False a b s) = ((ucast b :: u32) \<le> ucast a)"
  "flagV (cmp_flags False a b s) =
     (sint (ucast a :: u32) - sint (ucast b :: u32) \<noteq> sint ((ucast a :: u32) - ucast b))"
  by (simp_all add: cmp_flags_def sub_flags_def)

lemma regs_cmp_flags [simp]: "regs (cmp_flags b x y s) = regs s"
  by (simp add: cmp_flags_def sub_flags_def)

lemma ucast_eq_0_take_bit: "((ucast (w::u64) :: u32) = 0) \<longleftrightarrow> take_bit 32 w = 0"
  by (simp add: word_eq_iff_unsigned [where ?'a = nat] unsigned_ucast_eq unsigned_take_bit_eq)

lemma ucast_take_bit32 [simp]: "(ucast (take_bit 32 (w::u64)) :: u32) = ucast w"
  by (rule bit_word_eqI) (auto simp add: bit_simps)

lemma drop_bit_mod2: "drop_bit n (w::u64) mod 2 = of_bool (bit w n)"
  by (simp add: mod_2_eq_odd bit_iff_odd_drop_bit)

lemma hi_mask: "(0xFFFFFFFF00000000 :: u64) = NOT (mask 32)"
  by (simp add: mask_eq_exp_minus_1)

lemma lo_mask: "(0xFFFFFFFF :: u64) = mask 32"
  by (simp add: mask_eq_exp_minus_1)

lemma hi_mask1: "(0xFFFFFFFF00000001 :: u64) = NOT (mask 32) OR 1"
  by (simp add: mask_eq_exp_minus_1)

lemma bit_bfi_val_1:
  "bit (bfi_val d n lsb (Suc 0)) m \<longleftrightarrow> (if m = lsb then lsb < 64 \<and> odd n else bit d m)"
  by (auto simp add: bfi_val_def bit_simps bit_0 dest: bit_imp_le_length)

section \<open>The packed word across the instructions that write it\<close>

lemma cr_word_ORRi:
  "cr_word (exec_instr (ORRi (gpr_CR f) (gpr_CR f) v) s) f = cr_word s f OR v"
  by (simp add: cr_word_def reg_defs)

lemma cr_word_ANDi:
  "cr_word (exec_instr (ANDi (gpr_CR f) (gpr_CR f) v) s) f = cr_word s f AND v"
  by (simp add: cr_word_def reg_defs)

lemma cr_word_EORi:
  "cr_word (exec_instr (EORi (gpr_CR f) (gpr_CR f) v) s) f = cr_word s f XOR v"
  by (simp add: cr_word_def reg_defs)

lemma cr_word_BFI:
  "cr_word (exec_instr (BFI (gpr_CR f) inr lsb w) s) f = bfi_val (cr_word s f) (rd_reg s inr) lsb w"
  by (simp add: cr_word_def reg_defs)

lemma cr_word_ORRr:
  "cr_word (exec_instr (ORRr (gpr_CR f) (gpr_CR f) inr) s) f = cr_word s f OR rd_reg s inr"
  by (simp add: cr_word_def reg_defs)

lemma cr_word_FixGT:
  "cr_word (exec (FixGTBeforeSettingCRFieldBit k (gpr_CR f)) s) f =
     (if cr_word s f = 0 then push_bit 63 1 else cr_word s f)"
  by (simp add: FixGTBeforeSettingCRFieldBit_def reg_defs Let_def cr_word_def)

lemmas cr_word_exec = cr_word_ORRi cr_word_ANDi cr_word_EORi cr_word_BFI cr_word_ORRr cr_word_FixGT

lemma cr_word_reg_state [simp]: "cr_word (reg_state w) f = w"
  by (simp add: cr_word_def reg_state_def reg_defs)

section \<open>Testing a flag\<close>

lemma Get_SO:
  "host_of out \<noteq> ZRh \<Longrightarrow>
   rd_reg (exec (GetCRFieldBit field CR_SO_BIT out) s) out = of_bool (bit (cr_word s field) 59)"
  by (cases out)
     (simp_all add: GetCRFieldBit_def cr_consts reg_defs cr_word_def Let_def drop_bit_mod2)

lemma Get_LT:
  "host_of out \<noteq> ZRh \<Longrightarrow>
   rd_reg (exec (GetCRFieldBit field CR_LT_BIT out) s) out = of_bool (bit (cr_word s field) 62)"
  by (cases out)
     (simp_all add: GetCRFieldBit_def cr_consts reg_defs cr_word_def Let_def drop_bit_mod2)

lemma Get_EQ:
  "host_of out \<noteq> ZRh \<Longrightarrow>
   rd_reg (exec (GetCRFieldBit field CR_EQ_BIT out) s) out =
     of_bool ((ucast (cr_word s field) :: u32) = 0)"
  by (cases out) (simp_all add: GetCRFieldBit_def cr_consts reg_defs cr_word_def Let_def)

lemma Get_GT:
  "host_of out \<noteq> ZRh \<Longrightarrow>
   rd_reg (exec (GetCRFieldBit field CR_GT_BIT out) s) out = of_bool (0 < sint (cr_word s field))"
  by (cases out)
     (auto simp add: GetCRFieldBit_def cr_consts reg_defs cr_word_def Let_def sint_pos_conv)

lemma Jump_all:
  "jump_taken (JumpIfCRFieldBit field CR_SO_BIT j) s = Some (bit (cr_word s field) 59 = j)"
  "jump_taken (JumpIfCRFieldBit field CR_LT_BIT j) s = Some (bit (cr_word s field) 62 = j)"
  "jump_taken (JumpIfCRFieldBit field CR_EQ_BIT j) s =
     Some (((ucast (cr_word s field) :: u32) = 0) = j)"
  "jump_taken (JumpIfCRFieldBit field CR_GT_BIT j) s = Some ((0 < sint (cr_word s field)) = j)"
  by (auto simp add: jump_taken_def JumpIfCRFieldBit_def cr_consts reg_defs cr_word_def Let_def
      ucast_eq_0_take_bit sint_pos_conv)

lemma Get_shapes:
  "GetCRFieldBit field CR_SO_BIT out = [UBFX out (gpr_CR field) 59 1]"
  "GetCRFieldBit field CR_LT_BIT out = [UBFX out (gpr_CR field) 62 1]"
  "GetCRFieldBit field CR_EQ_BIT out = [CMPr (EncodeRegTo32 (gpr_CR field)) WZR, CSET out CC_EQ]"
  "GetCRFieldBit field CR_GT_BIT out = [CMPr (gpr_CR field) ZR, CSET out CC_GT]"
  by (simp_all add: GetCRFieldBit_def cr_consts Let_def)

lemma Jump_shapes:
  "JumpIfCRFieldBit field CR_SO_BIT j =
     Some ([], if j then TBNZ (gpr_CR field) 59 else TBZ (gpr_CR field) 59)"
  "JumpIfCRFieldBit field CR_LT_BIT j =
     Some ([], if j then TBNZ (gpr_CR field) 62 else TBZ (gpr_CR field) 62)"
  "JumpIfCRFieldBit field CR_EQ_BIT j =
     Some ([], if j then CBZ (EncodeRegTo32 (gpr_CR field)) else CBNZ (EncodeRegTo32 (gpr_CR field)))"
  "JumpIfCRFieldBit field CR_GT_BIT j =
     Some ([CMPi (gpr_CR field) 0], Bcc (if j then CC_GT else CC_LE))"
  by (simp_all add: JumpIfCRFieldBit_def cr_consts Let_def)

text \<open>
  C4. For every packed word of a condition field, the code of \<^verbatim>\<open>GetCRFieldBit\<close> leaves in
  its output register, and the branch of \<^verbatim>\<open>JumpIfCRFieldBit\<close> follows: for SO bit 59 of
  the word, for LT bit 62, for EQ whether the low 32 bits are zero, for GT whether the
  word is greater than zero as a signed 64-bit number. The code of \<^verbatim>\<open>GetCRFieldBit\<close> is
  one bit-field extract for SO and LT, a 32-bit compare with zero for EQ and a 64-bit
  compare with zero for GT. \<^verbatim>\<open>JumpIfCRFieldBit\<close> emits a single test-bit branch
  (\<^verbatim>\<open>TBNZ\<close> or \<^verbatim>\<open>TBZ\<close>) on bit 59 for SO and on bit 62 for LT, a single compare-and-branch
  (\<^verbatim>\<open>CBZ\<close> or \<^verbatim>\<open>CBNZ\<close>) on the 32-bit view of the word for EQ, and a 64-bit compare with
  zero followed by a branch on \<^verbatim>\<open>GT\<close> or \<^verbatim>\<open>LE\<close> for GT, and nothing else.
\<close>

theorem GetCRFieldBit_JumpIfCRFieldBit_test_flags:
  assumes "host_of out \<noteq> ZRh"
  shows
    "rd_reg (exec (GetCRFieldBit field CR_SO_BIT out) s) out = of_bool (bit (cr_word s field) 59) \<and>
     rd_reg (exec (GetCRFieldBit field CR_LT_BIT out) s) out = of_bool (bit (cr_word s field) 62) \<and>
     rd_reg (exec (GetCRFieldBit field CR_EQ_BIT out) s) out =
       of_bool ((ucast (cr_word s field) :: u32) = 0) \<and>
     rd_reg (exec (GetCRFieldBit field CR_GT_BIT out) s) out = of_bool (0 < sint (cr_word s field)) \<and>
     jump_taken (JumpIfCRFieldBit field CR_SO_BIT j) s = Some (bit (cr_word s field) 59 = j) \<and>
     jump_taken (JumpIfCRFieldBit field CR_LT_BIT j) s = Some (bit (cr_word s field) 62 = j) \<and>
     jump_taken (JumpIfCRFieldBit field CR_EQ_BIT j) s =
       Some (((ucast (cr_word s field) :: u32) = 0) = j) \<and>
     jump_taken (JumpIfCRFieldBit field CR_GT_BIT j) s = Some ((0 < sint (cr_word s field)) = j) \<and>
     GetCRFieldBit field CR_SO_BIT out = [UBFX out (gpr_CR field) 59 1] \<and>
     GetCRFieldBit field CR_LT_BIT out = [UBFX out (gpr_CR field) 62 1] \<and>
     GetCRFieldBit field CR_EQ_BIT out = [CMPr (EncodeRegTo32 (gpr_CR field)) WZR, CSET out CC_EQ] \<and>
     GetCRFieldBit field CR_GT_BIT out = [CMPr (gpr_CR field) ZR, CSET out CC_GT] \<and>
     JumpIfCRFieldBit field CR_SO_BIT j =
       Some ([], if j then TBNZ (gpr_CR field) 59 else TBZ (gpr_CR field) 59) \<and>
     JumpIfCRFieldBit field CR_LT_BIT j =
       Some ([], if j then TBNZ (gpr_CR field) 62 else TBZ (gpr_CR field) 62) \<and>
     JumpIfCRFieldBit field CR_EQ_BIT j =
       Some ([], if j then CBZ (EncodeRegTo32 (gpr_CR field))
                 else CBNZ (EncodeRegTo32 (gpr_CR field))) \<and>
     JumpIfCRFieldBit field CR_GT_BIT j =
       Some ([CMPi (gpr_CR field) 0], Bcc (if j then CC_GT else CC_LE))"
  by (intro conjI Get_SO Get_LT Get_EQ Get_GT Jump_all Get_shapes Jump_shapes assms)

theorem GetCRFieldBit_JumpIfCRFieldBit_test_flags_witness:
  "host_of (Xreg (Tmp 0)) \<noteq> ZRh \<and>
   rd_reg (exec (GetCRFieldBit 2 CR_SO_BIT (Xreg (Tmp 0))) (reg_state 0x0800000000000000))
     (Xreg (Tmp 0)) = 1 \<and>
   rd_reg (exec (GetCRFieldBit 2 CR_GT_BIT (Xreg (Tmp 0))) (reg_state 0x0800000000000000))
     (Xreg (Tmp 0)) = 1 \<and>
   jump_taken (JumpIfCRFieldBit 2 CR_LT_BIT True) (reg_state 0x0800000000000000) = Some False \<and>
   JumpIfCRFieldBit 2 CR_GT_BIT True = Some ([CMPi (gpr_CR 2) 0], Bcc CC_GT)"
proof -
  have h: "host_of (Xreg (Tmp 0)) \<noteq> ZRh"
    by simp
  note t = GetCRFieldBit_JumpIfCRFieldBit_test_flags
    [OF h, of 2 "reg_state 0x0800000000000000" True]
  note c2 = conjunct2
  note so = t [THEN conjunct1]
  note gt = t [THEN c2, THEN c2, THEN c2, THEN conjunct1]
  note lt = t [THEN c2, THEN c2, THEN c2, THEN c2, THEN c2, THEN conjunct1]
  note jgt = t [THEN c2, THEN c2, THEN c2, THEN c2, THEN c2, THEN c2, THEN c2, THEN c2,
    THEN c2, THEN c2, THEN c2, THEN c2, THEN c2, THEN c2, THEN c2]
  show ?thesis
    unfolding so gt lt jgt by simp
qed

section \<open>Writing a flag: the sign bit and the bit above the low half\<close>

lemma Set_keeps_sign:
  assumes "b \<noteq> CR_GT_BIT" "\<not> 0 < sint (cr_word s f)"
  shows "bit (cr_word (exec (SetCRFieldBit k f b inr negate hint) s) f) 63"
  using assms
  by (auto simp add: SetCRFieldBit_def Let_def exec_append cr_word_exec cr_consts bit_simps
      bit_bfi_val_1 not_GT_iff hi_mask lo_mask hi_mask1 simp del: exec_instr.simps)

lemma Set_lit_keeps_sign:
  assumes "b \<noteq> CR_GT_BIT" "\<not> 0 < sint (cr_word s f)"
  shows "bit (cr_word (exec (SetCRFieldBit_lit k f b) s) f) 63"
  using assms
  by (auto simp add: SetCRFieldBit_lit_def Let_def exec_append cr_word_exec cr_consts bit_simps
      not_GT_iff hi_mask simp del: exec_instr.simps)

lemma Clear_keeps_GT_false:
  assumes "b \<noteq> CR_GT_BIT" "\<not> 0 < sint (cr_word s f)"
  shows "\<not> 0 < sint (cr_word (exec (ClearCRFieldBit k f b) s) f)"
  using assms
  by (auto simp add: ClearCRFieldBit_def Let_def exec_append cr_word_exec cr_consts bit_simps
      not_GT_iff simp del: exec_instr.simps)

lemma Set_starts_with_FixGT:
  "b \<noteq> CR_GT_BIT \<Longrightarrow>
   take 3 (SetCRFieldBit k f b inr negate hint) = FixGTBeforeSettingCRFieldBit k (gpr_CR f)"
  "b \<noteq> CR_GT_BIT \<Longrightarrow>
   take 3 (SetCRFieldBit_lit k f b) = FixGTBeforeSettingCRFieldBit k (gpr_CR f)"
  "take 3 (ClearCRFieldBit k f CR_EQ_BIT) = FixGTBeforeSettingCRFieldBit k (gpr_CR f)"
  by (simp_all add: SetCRFieldBit_def SetCRFieldBit_lit_def ClearCRFieldBit_def
      FixGTBeforeSettingCRFieldBit_def Let_def cr_consts)

text \<open>
  C1. Take a write of a flag other than GT: \<^verbatim>\<open>SetCRFieldBit\<close> with a value,
  \<^verbatim>\<open>SetCRFieldBit\<close> with the literal, or \<^verbatim>\<open>ClearCRFieldBit\<close>. The two \<^verbatim>\<open>SetCRFieldBit\<close>,
  and \<^verbatim>\<open>ClearCRFieldBit\<close> for EQ, are the writes that can make a zero word nonzero, and
  their code starts with the three instructions of \<^verbatim>\<open>FixGTBeforeSettingCRFieldBit\<close>, which
  turn a zero word into \<^verbatim>\<open>1 << 63\<close> and leave every other word alone. If GT is false
  before the write (the word is not greater than zero as a signed number), GT is false
  after it, whatever the written value and the other arguments are.
\<close>

theorem flag_write_never_sets_GT:
  assumes "b \<noteq> CR_GT_BIT" and "\<not> 0 < sint (cr_word s f)"
  shows
    "\<not> 0 < sint (cr_word (exec (SetCRFieldBit k f b inr negate hint) s) f) \<and>
     \<not> 0 < sint (cr_word (exec (SetCRFieldBit_lit k f b) s) f) \<and>
     \<not> 0 < sint (cr_word (exec (ClearCRFieldBit k f b) s) f) \<and>
     take 3 (SetCRFieldBit k f b inr negate hint) = FixGTBeforeSettingCRFieldBit k (gpr_CR f) \<and>
     take 3 (SetCRFieldBit_lit k f b) = FixGTBeforeSettingCRFieldBit k (gpr_CR f) \<and>
     take 3 (ClearCRFieldBit k f CR_EQ_BIT) = FixGTBeforeSettingCRFieldBit k (gpr_CR f) \<and>
     cr_word (exec (FixGTBeforeSettingCRFieldBit k (gpr_CR f)) s) f =
       (if cr_word s f = 0 then push_bit 63 1 else cr_word s f)"
proof -
  have "\<not> 0 < sint (cr_word (exec (SetCRFieldBit k f b inr negate hint) s) f)"
    using Set_keeps_sign [OF assms] by (simp add: not_GT_iff)
  moreover have "\<not> 0 < sint (cr_word (exec (SetCRFieldBit_lit k f b) s) f)"
    using Set_lit_keeps_sign [OF assms] by (simp add: not_GT_iff)
  ultimately show ?thesis
    using Clear_keeps_GT_false [OF assms] Set_starts_with_FixGT assms(1) cr_word_FixGT
    by blast
qed

text \<open>
  The regression case of C1: from the packed word 0 (GT false, EQ true, LT false, SO
  false), setting SO leaves GT false; the word becomes
  \<^verbatim>\<open>(1 << 63) | (1 << 59) | (1 << 32)\<close>.
\<close>

theorem flag_write_never_sets_GT_witness:
  "CR_SO_BIT \<noteq> CR_GT_BIT \<and> \<not> 0 < sint (cr_word (reg_state 0) 0) \<and>
   \<not> 0 < sint (cr_word (exec (SetCRFieldBit_lit 0 0 CR_SO_BIT) (reg_state 0)) 0) \<and>
   cr_word (exec (SetCRFieldBit_lit 0 0 CR_SO_BIT) (reg_state 0)) 0 = 0x8800000100000000"
proof -
  have h1: "CR_SO_BIT \<noteq> CR_GT_BIT"
    by (simp add: cr_consts)
  have h2: "\<not> 0 < sint (cr_word (reg_state 0) 0)"
    by simp
  have "cr_word (exec (SetCRFieldBit_lit 0 0 CR_SO_BIT) (reg_state 0)) 0 = 0x8800000100000000"
    by (simp add: SetCRFieldBit_lit_def Let_def exec_append cr_word_exec cr_consts
        del: exec_instr.simps)
  then show ?thesis
    using h1 h2 flag_write_never_sets_GT [OF h1 h2, of 0 "Xreg (Tmp 0)" False False]
    by simp
qed

lemma Set_bit32:
  "bit (cr_word (exec (SetCRFieldBit k field b inr negate hint) s) field) 32"
  by (simp add: SetCRFieldBit_def Let_def exec_append cr_word_ORRi bit_simps
      del: exec_instr.simps)

lemma Set_lit_bit32:
  "bit (cr_word (exec (SetCRFieldBit_lit k field b) s) field) 32"
  by (simp add: SetCRFieldBit_lit_def Let_def exec_append cr_word_ORRi bit_simps
      del: exec_instr.simps)

lemma Clear_bit32:
  "bit (cr_word (exec (ClearCRFieldBit k field b) s) field) 32 = bit (cr_word s field) 32"
  by (simp add: ClearCRFieldBit_def Let_def exec_append cr_word_ORRi cr_word_ANDi
      cr_word_FixGT cr_consts bit_simps del: exec_instr.simps)

text \<open>
  C8, as the code has it. After \<^verbatim>\<open>SetCRFieldBit\<close>, with a value or with the literal, bit
  32 of the packed word is set, for every bit number and every argument: the last
  instruction of both is \<^verbatim>\<open>ORR(CR, CR, 1 << 32)\<close>. \<^verbatim>\<open>ClearCRFieldBit\<close> has no such
  instruction: it leaves bit 32 as it was.
\<close>

theorem SetCRFieldBit_sets_bit32_Clear_keeps_it:
  "bit (cr_word (exec (SetCRFieldBit k field b inr negate hint) s) field) 32 \<and>
   bit (cr_word (exec (SetCRFieldBit_lit k field b) s) field) 32 \<and>
   bit (cr_word (exec (ClearCRFieldBit k field b) s) field) 32 = bit (cr_word s field) 32"
  by (simp only: Set_bit32 Set_lit_bit32 Clear_bit32 simp_thms)

text \<open>
  C8 as stated fails for \<^verbatim>\<open>ClearCRFieldBit\<close>: clearing SO in the packed word 0 leaves the
  word 0, with bit 32 clear.
\<close>

theorem ClearCRFieldBit_bit32_counterexample:
  "\<not> bit (cr_word (exec (ClearCRFieldBit 0 0 CR_SO_BIT) (reg_state 0)) 0) 32"
  by (simp add: ClearCRFieldBit_def Let_def cr_word_ANDi cr_consts del: exec_instr.simps)

section \<open>Division by 12 in the time base read\<close>

lemma recip12:
  assumes "n < 2 ^ 64"
  shows "(n * 0xAAAAAAAAAAAAAAAB) div 2 ^ 64 div 8 = (n::nat) div 12"
proof -
  define q r where "q = n div 12" and "r = n mod 12"
  have n: "n = 12 * q + r" and r: "r < 12"
    by (simp_all add: q_def r_def)
  have q: "q < 2 ^ 64 div 12 + 1"
    using assms by (simp add: q_def)
  have "n * 0xAAAAAAAAAAAAAAAB = q * 2 ^ 67 + (4 * q + r * 0xAAAAAAAAAAAAAAAB)"
    by (simp add: n algebra_simps)
  moreover have "4 * q + r * 0xAAAAAAAAAAAAAAAB < (2::nat) ^ 67"
    using q r by simp
  ultimately have "n * 0xAAAAAAAAAAAAAAAB div 2 ^ 67 = q"
    by simp
  moreover have "(n * 0xAAAAAAAAAAAAAAAB) div 2 ^ 64 div 8 = n * 0xAAAAAAAAAAAAAAAB div 2 ^ 67"
    by (simp add: div_mult2_eq)
  ultimately show ?thesis by (simp add: q_def)
qed

lemma umulh_recip:
  "drop_bit 3 (umulh_val a 0xAAAAAAAAAAAAAAAB) = a div 12"
proof -
  have b: "unat a < 2 ^ 64"
    using unsigned_less [of a] by simp
  have m: "unat a * 0xAAAAAAAAAAAAAAAB div 2 ^ 64 < 2 ^ 64"
    using b by (simp add: less_mult_imp_div_less)
  have "unat (drop_bit 3 (umulh_val a 0xAAAAAAAAAAAAAAAB)) =
        unat a * 0xAAAAAAAAAAAAAAAB div 2 ^ 64 div 8"
    using m by (simp add: umulh_val_def unat_drop_bit_eq drop_bit_eq_div unat_of_nat unat_div)
  also have "\<dots> = unat a div 12"
    by (rule recip12 [OF b])
  also have "\<dots> = unat (a div 12)"
    by (simp add: unat_div)
  finally show ?thesis
    by (simp add: word_eq_iff_unsigned [where ?'a = nat])
qed

lemma regs_str_val [simp]: "regs (str_val b off v s) = regs s"
  by (simp add: str_val_def split: ppc_off.splits)

lemma divide_exec:
  "rd_reg (exec (mfspr_timebase_divide c) s) (Xreg (Tmp 1)) =
     rd_reg s (Xreg (Tmp 2)) + rd_reg s (Xreg (Tmp 1)) div 12"
  by (simp add: mfspr_timebase_divide_def Let_def reg_defs umulh_recip)

lemma divide_no_division: "filter is_division (mfspr_timebase_divide c) = []"
  by (simp add: mfspr_timebase_divide_def Let_def)

text \<open>
  C3. For every 64-bit value \<open>a\<close>, the high half of the 128-bit product of \<open>a\<close> and
  \<^verbatim>\<open>0xAAAAAAAAAAAAAAAB\<close>, shifted right by 3, is the unsigned quotient \<open>a div 12\<close>. The
  emitted sequence builds the constant, multiplies, and adds the shifted product to
  the start value in \<^verbatim>\<open>XA\<close>: \<^verbatim>\<open>Xresult\<close> ends as \<^verbatim>\<open>XA + Xresult / 12\<close>. None of its
  instructions is a division.
\<close>

theorem timebase_reciprocal_divides_by_12:
  "drop_bit 3 (umulh_val a 0xAAAAAAAAAAAAAAAB) = a div 12 \<and>
   rd_reg (exec (mfspr_timebase_divide c) s) (Xreg (Tmp 1)) =
     rd_reg s (Xreg (Tmp 2)) + rd_reg s (Xreg (Tmp 1)) div 12 \<and>
   filter is_division (mfspr_timebase_divide c) = []"
  by (simp only: umulh_recip divide_exec divide_no_division simp_thms)

section \<open>The summary bits of the FPSCR\<close>

lemma take_bit_32_ucast: "take_bit 32 (x::u64) = ucast (ucast x :: u32)"
  by (rule bit_word_eqI) (auto simp add: bit_simps)

lemma ucast_up_down [simp]: "(ucast (ucast (a::u32) :: u64) :: u32) = a"
  by (rule bit_word_eqI) (auto simp add: bit_simps)

lemma ucast_up_eq_0 [simp]: "(ucast (a::u32) :: u64) = 0 \<longleftrightarrow> a = 0"
  by (metis ucast_up_down unsigned_0)

lemma ucast_and_up: "(ucast (a::u32) :: u64) AND ucast b = ucast (a AND b)"
  by (rule bit_word_eqI) (auto simp add: bit_simps)

lemma ucast_and32: "(ucast ((x::u64) AND y) :: u32) = ucast x AND ucast y"
  by (rule bit_word_eqI) (auto simp add: bit_simps)

lemma ucast_or32: "(ucast ((x::u64) OR y) :: u32) = ucast x OR ucast y"
  by (rule bit_word_eqI) (auto simp add: bit_simps)

lemmas w32 = take_bit_32_ucast ucast_and32 ucast_or32

lemma drop_bit_up: "drop_bit n (ucast (a::u32) :: u64) = ucast (drop_bit n a)"
  by (rule bit_word_eqI) (auto simp add: bit_simps dest: bit_imp_le_length)

lemma ucast_bfi32:
  "p < 32 \<Longrightarrow> (ucast (bfi_val (ucast (w::u32)) 1 p (Suc 0)) :: u32) = set_bit p w"
  "p < 32 \<Longrightarrow> (ucast (bfi_val (ucast (w::u32)) 0 p (Suc 0)) :: u32) = unset_bit p w"
  by (rule bit_word_eqI; auto simp add: bit_simps bit_bfi_val_1)+

lemma highest_bit_le: "highest_bit n v \<le> n"
  by (induction n) auto

lemma IntLog2_lt: "IntLog2 v < 32"
  using highest_bit_le [of 31 v] by (simp add: IntLog2_def)

lemma IntLog2_gekko: "IntLog2 (FPSCR_VX gekko) = 29" "IntLog2 (FPSCR_FEX gekko) = 30"
  by (simp_all add: IntLog2_def gekko_def eval_nat_numeral)

lemma fpscr_of_reg_state [simp]: "fpscr_of (reg_state w) h = ucast w"
  by (simp add: fpscr_of_def reg_state_def)

lemma regs_logic_flags [simp]: "regs (logic_flags b x s) = regs s"
  by (simp add: logic_flags_def Let_def)

lemma flagZ_logic32 [simp]: "flagZ (logic_flags False x s) = ((ucast x :: u32) = 0)"
  by (simp add: logic_flags_def Let_def ucast_eq_0_take_bit)

lemma Update_exec:
  assumes "h \<noteq> ZRh" "h \<noteq> Tmp k"
  shows "fpscr_of (exec (UpdateFPExceptionSummary c k (Wreg h)) s) h =
    (let w = fpscr_of s h;
         vx = (w AND FPSCR_VX_ANY c \<noteq> 0);
         w1 = (if vx then set_bit (IntLog2 (FPSCR_VX c)) w else unset_bit (IntLog2 (FPSCR_VX c)) w);
         fex = (drop_bit 22 w1 AND (w1 AND FPSCR_ANY_E c) \<noteq> 0)
     in if fex then set_bit (IntLog2 (FPSCR_FEX c)) w1 else unset_bit (IntLog2 (FPSCR_FEX c)) w1)"
  using assms
  by (simp add: UpdateFPExceptionSummary_def Let_def reg_defs fpscr_of_def
      take_bit_32_ucast ucast_and_up drop_bit_up ucast_bfi32 IntLog2_lt ac_simps)

text \<open>
  C6, as the code has it. Let \<open>w\<close> be the FPSCR word in the register \<open>h\<close> handed to
  \<^verbatim>\<open>UpdateFPExceptionSummary\<close> (any register but the zero register and the temporary the
  function takes), and \<open>r\<close> the word it leaves there. The VX bit of \<open>r\<close> says whether
  \<^verbatim>\<open>w & FPSCR_VX_ANY\<close> is nonzero. The FEX bit of \<open>r\<close> says whether
  \<^verbatim>\<open>(w1 >> 22) & (w1 & FPSCR_ANY_E)\<close> is nonzero, where \<open>w1\<close> is \<open>w\<close> with the VX bit
  already rewritten: FEX is computed from the updated word, not from the input word.
  Every other bit of \<open>r\<close> is the bit of \<open>w\<close>; \<open>r\<close> depends on \<open>w\<close> alone.
\<close>

theorem UpdateFPExceptionSummary_recomputes_VX_then_FEX:
  assumes "h \<noteq> ZRh" "h \<noteq> Tmp k" "IntLog2 (FPSCR_VX c) \<noteq> IntLog2 (FPSCR_FEX c)"
  shows
    "(let w = fpscr_of s h;
          r = fpscr_of (exec (UpdateFPExceptionSummary c k (Wreg h)) s) h;
          vx = (w AND FPSCR_VX_ANY c \<noteq> 0);
          w1 = (if vx then set_bit (IntLog2 (FPSCR_VX c)) w else unset_bit (IntLog2 (FPSCR_VX c)) w);
          fex = (drop_bit 22 w1 AND (w1 AND FPSCR_ANY_E c) \<noteq> 0)
      in (bit r (IntLog2 (FPSCR_VX c)) = vx) \<and>
         (bit r (IntLog2 (FPSCR_FEX c)) = fex) \<and>
         r AND NOT (push_bit (IntLog2 (FPSCR_VX c)) 1 OR push_bit (IntLog2 (FPSCR_FEX c)) 1) =
         w AND NOT (push_bit (IntLog2 (FPSCR_VX c)) 1 OR push_bit (IntLog2 (FPSCR_FEX c)) 1))"
proof -
  let ?pv = "IntLog2 (FPSCR_VX c)" and ?pf = "IntLog2 (FPSCR_FEX c)"
  have lt: "?pv < 32" "?pf < 32"
    by (rule IntLog2_lt)+
  note r = Update_exec [OF assms(1,2), of c s, unfolded Let_def]
  have 1: "bit (fpscr_of (exec (UpdateFPExceptionSummary c k (Wreg h)) s) h) ?pv =
           (fpscr_of s h AND FPSCR_VX_ANY c \<noteq> 0)"
    unfolding r using assms(3) lt by (auto simp add: bit_simps)
  have 2: "bit (fpscr_of (exec (UpdateFPExceptionSummary c k (Wreg h)) s) h) ?pf =
           (drop_bit 22 (if fpscr_of s h AND FPSCR_VX_ANY c \<noteq> 0 then set_bit ?pv (fpscr_of s h)
                         else unset_bit ?pv (fpscr_of s h)) AND
            ((if fpscr_of s h AND FPSCR_VX_ANY c \<noteq> 0 then set_bit ?pv (fpscr_of s h)
              else unset_bit ?pv (fpscr_of s h)) AND FPSCR_ANY_E c) \<noteq> 0)"
    unfolding r using lt by (simp add: bit_simps)
  have 3: "fpscr_of (exec (UpdateFPExceptionSummary c k (Wreg h)) s) h AND
             NOT (push_bit ?pv 1 OR push_bit ?pf 1) =
           fpscr_of s h AND NOT (push_bit ?pv 1 OR push_bit ?pf 1)"
    unfolding r by (rule bit_word_eqI) (auto simp add: bit_simps)
  show ?thesis
    unfolding Let_def using 1 2 3 by blast
qed

theorem UpdateFPExceptionSummary_recomputes_VX_then_FEX_witness:
  "Tmp 0 \<noteq> ZRh \<and> Tmp 0 \<noteq> Tmp 1 \<and> IntLog2 (FPSCR_VX gekko) \<noteq> IntLog2 (FPSCR_FEX gekko) \<and>
   bit (fpscr_of (exec (UpdateFPExceptionSummary gekko 1 (Wreg (Tmp 0))) (reg_state 0x01000080))
      (Tmp 0)) (IntLog2 (FPSCR_VX gekko))"
proof -
  have h: "Tmp 0 \<noteq> ZRh" "Tmp 0 \<noteq> Tmp 1"
    "IntLog2 (FPSCR_VX gekko) \<noteq> IntLog2 (FPSCR_FEX gekko)"
    by (simp_all add: IntLog2_gekko)
  have v: "fpscr_of (reg_state 0x01000080) (Tmp 0) AND FPSCR_VX_ANY gekko \<noteq> 0"
    by (simp add: gekko_def)
  show ?thesis
    using h v UpdateFPExceptionSummary_recomputes_VX_then_FEX
      [OF h, of "reg_state 0x01000080", unfolded Let_def]
    by blast
qed

text \<open>
  C6 as stated, with FEX computed from the input word, fails. With the architecture's
  masks, take the word \<^verbatim>\<open>0x01000080\<close>: VXSNAN and the enable VE are set, VX is still
  clear. The function sets VX and, from the updated word, FEX: the result is
  \<^verbatim>\<open>0x61000080\<close>. On the input word \<^verbatim>\<open>(w >> 22) & (w & FPSCR_ANY_E)\<close> is zero.
\<close>

theorem UpdateFPExceptionSummary_FEX_counterexample:
  "bit (fpscr_of (exec (UpdateFPExceptionSummary gekko 1 (Wreg (Tmp 0))) (reg_state 0x01000080))
      (Tmp 0)) (IntLog2 (FPSCR_FEX gekko)) \<and>
   \<not> (drop_bit 22 (fpscr_of (reg_state 0x01000080) (Tmp 0)) AND
       (fpscr_of (reg_state 0x01000080) (Tmp 0) AND FPSCR_ANY_E gekko) \<noteq> 0)"
proof -
  have "fpscr_of (exec (UpdateFPExceptionSummary gekko 1 (Wreg (Tmp 0))) (reg_state 0x01000080))
      (Tmp 0) = 0x61000080"
    by (simp add: Update_exec IntLog2_gekko set_bit_eq_or unset_bit_eq_and_not)
       (simp add: gekko_def)
  then show ?thesis
    by (simp add: IntLog2_gekko) (simp add: gekko_def)
qed

section \<open>Setting an exception bit with mtfsb1\<close>

lemma ppcstate_str_fpscr [simp]: "ppcstate (str_val False OFF_fpscr v s) OFF_fpscr = ucast v"
  by (simp add: str_val_def)

lemma exec_UpdateRoundingMode [simp]: "exec UpdateRoundingMode s = s"
  by (simp add: UpdateRoundingMode_def)

lemma store_fpscr:
  "ppcstate (exec (if b then UpdateRoundingMode else []) (exec [STRu (Wreg (Tmp 0)) OFF_fpscr] t))
     OFF_fpscr = fpscr_of t (Tmp 0)"
  by (simp add: fpscr_of_def w32)

text \<open>
  C10. Let \<^verbatim>\<open>mtfsb1x\<close> compile an instruction whose bit \<^verbatim>\<open>0x80000000 >> CRBD\<close> belongs
  to \<^verbatim>\<open>FPSCR_ANY_X\<close> (and is neither FEX nor VX, for which the handler emits nothing).
  The emitted code runs to a state in which bit 31 (FX) of the stored FPSCR is set if
  and only if FX was set before or the exception bit was clear before: FX is set when
  the bit goes from 0 to 1, and keeps its value when the bit was already set. The
  summary bits that \<^verbatim>\<open>UpdateFPExceptionSummary\<close> rewrites are taken to lie below bit 31.
\<close>

theorem mtfsb1x_sets_FX_when_bit_was_clear:
  assumes "\<not> bJITSystemRegistersOff" "\<not> Rc inst" "\<not> fp_exceptions"
    and "m = drop_bit (CRBD inst) (0x80000000 :: u32)"
    and "m AND FPSCR_ANY_X c \<noteq> 0" "m \<noteq> FPSCR_FEX c" "m \<noteq> FPSCR_VX c"
    and "IntLog2 (FPSCR_VX c) \<noteq> 31" "IntLog2 (FPSCR_FEX c) \<noteq> 31"
  shows "\<exists>s'. run (mtfsb1x c bJITSystemRegistersOff fp_exceptions inst) s = Some s' \<and>
     (bit (ppcstate s' OFF_fpscr) 31 \<longleftrightarrow>
        bit (ppcstate s OFF_fpscr) 31 \<or> ppcstate s OFF_fpscr AND m = 0)"
proof -
  let ?f = "ppcstate s OFF_fpscr"
  let ?pre = "[LDRu (Wreg (Tmp 0)) OFF_fpscr, TSTi (Wreg (Tmp 0)) (ucast m),
               ORRi (Wreg (Tmp 1)) (Wreg (Tmp 0)) (push_bit 31 1),
               CSEL (Wreg (Tmp 0)) (Wreg (Tmp 0)) (Wreg (Tmp 1)) CC_NEQ,
               ORRi (Wreg (Tmp 0)) (Wreg (Tmp 0)) (ucast m)]"
  let ?code = "?pre @ UpdateFPExceptionSummary c 1 (Wreg (Tmp 0)) @
           [STRu (Wreg (Tmp 0)) OFF_fpscr] @
           (if 29 \<le> CRBD inst then UpdateRoundingMode else [])"
  have code: "mtfsb1x c bJITSystemRegistersOff fp_exceptions inst = Some ?code"
    using assms
    by (simp add: mtfsb1x_def Let_def reg_defs bit.conj_disj_distrib or_eq_0_iff)
  have pre: "fpscr_of (exec ?pre s) (Tmp 0) =
             (if ?f AND m \<noteq> 0 then ?f else ?f OR push_bit 31 1) OR m"
    by (simp add: fpscr_of_def ldr_val_def w32)
  have upd: "bit (fpscr_of (exec (UpdateFPExceptionSummary c 1 (Wreg (Tmp 0))) t) (Tmp 0)) 31 =
             bit (fpscr_of t (Tmp 0)) 31" for t
    using assms(8,9) by (simp add: Update_exec Let_def bit_simps)
  have m31: "bit m 31 \<Longrightarrow> m = push_bit 31 1"
    using assms(4) by (cases "CRBD inst = 0") (simp_all add: bit_simps)
  have fx: "bit ((if ?f AND m \<noteq> 0 then ?f else ?f OR push_bit 31 1) OR m) 31 \<longleftrightarrow>
            bit ?f 31 \<or> ?f AND m = 0"
  proof (cases "bit m 31")
    case True
    then have "m = 2 ^ 31" using m31 by simp
    then show ?thesis
      using and_exp_eq_0_iff_not_bit [of ?f 31] by (auto simp add: bit_simps)
  next
    case False
    then show ?thesis by (auto simp add: bit_simps)
  qed
  have "ppcstate (exec ?code s) OFF_fpscr =
        fpscr_of (exec (UpdateFPExceptionSummary c 1 (Wreg (Tmp 0))) (exec ?pre s)) (Tmp 0)"
    by (simp only: exec_append store_fpscr)
  then have "bit (ppcstate (exec ?code s) OFF_fpscr) 31 =
        bit (fpscr_of (exec (UpdateFPExceptionSummary c 1 (Wreg (Tmp 0))) (exec ?pre s)) (Tmp 0)) 31"
    by (simp only:)
  also have "\<dots> = bit (fpscr_of (exec ?pre s) (Tmp 0)) 31"
    by (rule upd)
  also have "\<dots> = bit ((if ?f AND m \<noteq> 0 then ?f else ?f OR push_bit 31 1) OR m) 31"
    by (simp only: pre)
  also have "\<dots> = (bit ?f 31 \<or> ?f AND m = 0)"
    by (rule fx)
  finally have R: "bit (ppcstate (exec ?code s) OFF_fpscr) 31 = (bit ?f 31 \<or> ?f AND m = 0)" .
  show ?thesis
    by (rule exI [of _ "exec ?code s"]) (simp only: code run_def option.map R simp_thms)
qed

text \<open>
  A run of C10 with the architecture's masks: \<^verbatim>\<open>mtfsb1 7\<close> (VXSNAN) on the FPSCR word 0
  sets FX.
\<close>

theorem mtfsb1x_sets_FX_when_bit_was_clear_witness:
  "\<not> False \<and> \<not> Rc (inst0\<lparr>CRBD := 7\<rparr>) \<and>
   (0x01000000 :: u32) = drop_bit (CRBD (inst0\<lparr>CRBD := 7\<rparr>)) (0x80000000 :: u32) \<and>
   0x01000000 AND FPSCR_ANY_X gekko \<noteq> 0 \<and>
   0x01000000 \<noteq> FPSCR_FEX gekko \<and> 0x01000000 \<noteq> FPSCR_VX gekko \<and>
   IntLog2 (FPSCR_VX gekko) \<noteq> 31 \<and> IntLog2 (FPSCR_FEX gekko) \<noteq> 31 \<and>
   (\<exists>s'. run (mtfsb1x gekko False False (inst0\<lparr>CRBD := 7\<rparr>)) (fpscr_state 0) = Some s' \<and>
         bit (ppcstate s' OFF_fpscr) 31)"
proof -
  have h: "\<not> False" "\<not> Rc (inst0\<lparr>CRBD := 7\<rparr>)" "\<not> False"
    "(0x01000000 :: u32) = drop_bit (CRBD (inst0\<lparr>CRBD := 7\<rparr>)) (0x80000000 :: u32)"
    "0x01000000 AND FPSCR_ANY_X gekko \<noteq> 0"
    "0x01000000 \<noteq> FPSCR_FEX gekko" "0x01000000 \<noteq> FPSCR_VX gekko"
    "IntLog2 (FPSCR_VX gekko) \<noteq> 31" "IntLog2 (FPSCR_FEX gekko) \<noteq> 31"
    by (simp_all add: inst0_def IntLog2_gekko) (simp_all add: gekko_def)
  have z: "ppcstate (fpscr_state 0) OFF_fpscr AND 0x01000000 = 0"
    by (simp add: fpscr_state_def)
  show ?thesis
    using h z mtfsb1x_sets_FX_when_bit_was_clear [OF h, of "fpscr_state 0"] by blast
qed

section \<open>Two-operand logic: from the source bits to the destination bit\<close>

lemma le3_cases: "b \<le> (3::nat) \<Longrightarrow> b = 0 \<or> b = 1 \<or> b = 2 \<or> b = 3"
  by arith

lemma Get_regs:
  assumes "b \<le> 3"
  shows "regs (exec (GetCRFieldBit f b (Xreg (Tmp j))) s) =
         (regs s)(Tmp j := of_bool (CRFlag (cr_word s f) b))"
  using le3_cases [OF assms]
  by (auto simp add: GetCRFieldBit_def CRFlag_def cr_consts reg_defs cr_word_def Let_def
      drop_bit_mod2 sint_pos_conv fun_eq_iff)

lemma regs_FixGT:
  "h \<noteq> CRh f \<Longrightarrow> h \<noteq> Tmp k \<Longrightarrow>
   regs (exec (FixGTBeforeSettingCRFieldBit k (gpr_CR f)) s) h = regs s h"
  by (simp add: FixGTBeforeSettingCRFieldBit_def reg_defs Let_def)

lemma ucast_xor32: "(ucast ((x::u64) XOR y) :: u32) = ucast x XOR ucast y"
  by (rule bit_word_eqI) (auto simp add: bit_simps)

lemma bit32_nonzero: "bit (w::u64) 32 \<Longrightarrow> w \<noteq> 0"
  by auto

lemma Set_flag_SO:
  "CRFlag (cr_word (exec (SetCRFieldBit 1 f CR_SO_BIT (Xreg (Tmp 0)) negate hint) s) f) CR_SO_BIT
     = (odd (regs s (Tmp 0)) \<noteq> negate)"
  by (auto simp add: SetCRFieldBit_def Let_def exec_append cr_word_exec cr_consts CRFlag_def
      bit_simps bit_bfi_val_1 regs_FixGT simp del: exec_instr.simps)

lemma Set_flag_LT:
  "CRFlag (cr_word (exec (SetCRFieldBit 1 f CR_LT_BIT (Xreg (Tmp 0)) negate hint) s) f) CR_LT_BIT
     = (odd (regs s (Tmp 0)) \<noteq> negate)"
  by (auto simp add: SetCRFieldBit_def Let_def exec_append cr_word_exec cr_consts CRFlag_def
      bit_simps bit_bfi_val_1 regs_FixGT simp del: exec_instr.simps)

lemma Set_flag_GT:
  "CRFlag (cr_word (exec (SetCRFieldBit 1 f CR_GT_BIT (Xreg (Tmp 0)) negate hint) s) f) CR_GT_BIT
     = (odd (regs s (Tmp 0)) \<noteq> negate)"
proof -
  have "bit (cr_word (exec (SetCRFieldBit 1 f CR_GT_BIT (Xreg (Tmp 0)) negate hint) s) f) 32"
    by (rule Set_bit32)
  then have nz: "cr_word (exec (SetCRFieldBit 1 f CR_GT_BIT (Xreg (Tmp 0)) negate hint) s) f \<noteq> 0"
    by (rule bit32_nonzero)
  have "bit (cr_word (exec (SetCRFieldBit 1 f CR_GT_BIT (Xreg (Tmp 0)) negate hint) s) f) 63
        = (odd (regs s (Tmp 0)) = negate)"
    by (auto simp add: SetCRFieldBit_def Let_def exec_append cr_word_exec cr_consts
      bit_simps bit_bfi_val_1 regs_FixGT simp del: exec_instr.simps)
  then show ?thesis
    using nz by (auto simp add: CRFlag_def cr_consts sint_pos_iff)
qed


lemma ucast_hi_mask:
  "(0xFFFFFFFF00000000 :: u32) = 0"
  "(0xFFFFFFFF00000001 :: u32) = 1"
  "(4294967296 :: u32) = 0"
  by simp_all

lemma regs_other_CR:
  "h \<noteq> CRh f \<Longrightarrow> regs (exec_instr (ANDi (gpr_CR f) rn v) s) h = regs s h"
  "h \<noteq> CRh f \<Longrightarrow> regs (exec_instr (ORRi (gpr_CR f) rn v) s) h = regs s h"
  "h \<noteq> CRh f \<Longrightarrow> regs (exec_instr (EORi (gpr_CR f) rn v) s) h = regs s h"
  "h \<noteq> CRh f \<Longrightarrow> regs (exec_instr (BFI (gpr_CR f) rn l w) s) h = regs s h"
  "h \<noteq> CRh f \<Longrightarrow> regs (exec_instr (ORRr (gpr_CR f) rn rm) s) h = regs s h"
  by (simp_all add: reg_defs)

lemma Set_flag_EQ:
  assumes "(ucast (regs s (Tmp 0)) :: u32) = (if hint then 0xFFFFFFFE OR of_bool x else of_bool x)"
  shows "CRFlag (cr_word (exec (SetCRFieldBit 1 f CR_EQ_BIT (Xreg (Tmp 0)) negate hint) s) f) CR_EQ_BIT
     = (x \<noteq> negate)"
  using assms
  by (cases x; cases hint; cases negate)
     (simp_all add: SetCRFieldBit_def Let_def exec_append cr_word_exec cr_consts CRFlag_def
      regs_FixGT regs_other_CR ucast_and32 ucast_or32 ucast_xor32 ucast_hi_mask
      del: exec_instr.simps)

lemma in_odd:
  assumes "(ucast (v::u64) :: u32) = (if hint then 0xFFFFFFFE OR of_bool x else of_bool x)"
  shows "odd v = x"
proof -
  have "odd v = bit (ucast v :: u32) 0"
    unfolding bit_0 [symmetric] by (simp add: bit_simps)
  also have "\<dots> = x"
    unfolding assms by (cases x; cases hint) (simp_all add: bit_0)
  finally show ?thesis .
qed

lemma Set_flag:
  assumes "b \<le> 3"
    and "(ucast (regs s (Tmp 0)) :: u32) = (if hint then 0xFFFFFFFE OR of_bool x else of_bool x)"
  shows "CRFlag (cr_word (exec (SetCRFieldBit 1 f b (Xreg (Tmp 0)) negate hint) s) f) b
     = (x \<noteq> negate)"
  using le3_cases [OF assms(1)] Set_flag_SO [of f negate hint s] Set_flag_LT [of f negate hint s]
    Set_flag_GT [of f negate hint s] Set_flag_EQ [OF assms(2), of f negate] in_odd [OF assms(2)]
  by (auto simp add: cr_consts)


lemma Clear_flag:
  assumes "b \<le> 3"
  shows "\<not> CRFlag (cr_word (exec (ClearCRFieldBit 0 f b) s) f) b"
proof -
  have nz: "w OR 1 \<noteq> 0" for w :: u64
    by (metis bit_0 bit_or_iff odd_one even_zero)
  have u: "(ucast (w OR 1 :: u64) :: u32) \<noteq> 0" for w
    by (metis bit_0 bit_or_iff odd_one even_zero bit_word_ucast_iff len_gt_0)
  show ?thesis
    using le3_cases [OF assms]
    by (auto simp add: ClearCRFieldBit_def Let_def exec_append cr_word_exec cr_consts CRFlag_def
      bit_simps sint_pos_iff u simp del: exec_instr.simps)
qed

lemma Set_lit_flag:
  assumes "b \<le> 3"
  shows "CRFlag (cr_word (exec (SetCRFieldBit_lit 0 f b) s) f) b"
proof -
  have nz: "cr_word (exec (SetCRFieldBit_lit 0 f b) s) f \<noteq> 0"
    using Set_lit_bit32 [of 0 f b s] by (rule bit32_nonzero)
  have gt: "b = 2 \<Longrightarrow> \<not> bit (cr_word (exec (SetCRFieldBit_lit 0 f b) s) f) 63"
    by (simp add: SetCRFieldBit_lit_def Let_def exec_append cr_word_exec cr_consts
      bit_simps del: exec_instr.simps)
  have eq: "b = 1 \<Longrightarrow> (ucast (cr_word (exec (SetCRFieldBit_lit 0 f b) s) f) :: u32) = 0"
    by (simp add: SetCRFieldBit_lit_def Let_def exec_append cr_word_exec cr_consts
      ucast_and32 ucast_or32 ucast_hi_mask del: exec_instr.simps)
  have so: "b = 0 \<Longrightarrow> bit (cr_word (exec (SetCRFieldBit_lit 0 f b) s) f) 59"
    by (simp add: SetCRFieldBit_lit_def Let_def exec_append cr_word_exec cr_consts
      bit_simps del: exec_instr.simps)
  have lt: "b = 3 \<Longrightarrow> bit (cr_word (exec (SetCRFieldBit_lit 0 f b) s) f) 62"
    by (simp add: SetCRFieldBit_lit_def Let_def exec_append cr_word_exec cr_consts
      bit_simps del: exec_instr.simps)
  show ?thesis
    using le3_cases [OF assms] nz gt eq so lt
    by (auto simp add: CRFlag_def cr_consts sint_pos_iff)
qed


lemma cr_word_regs: "regs t = (regs s)(Tmp j := v) \<Longrightarrow> cr_word t f = cr_word s f"
  by (simp add: cr_word_def reg_defs)

lemma combine_vals:
  "(ucast (of_bool A AND of_bool B :: u64) :: u32) = of_bool (A \<and> B)"
  "(ucast (of_bool A AND NOT (of_bool B) :: u64) :: u32) = of_bool (A \<and> \<not> B)"
  "(ucast (of_bool A XOR of_bool B :: u64) :: u32) = of_bool (A \<noteq> B)"
  "(ucast (of_bool A OR of_bool B :: u64) :: u32) = of_bool (A \<or> B)"
  by (cases A; cases B; simp)+

lemma ucast_eon32:
  "(ucast (take_bit 32 (take_bit 32 x XOR NOT (take_bit 32 y)) :: u64) :: u32) =
     ucast x XOR NOT (ucast y)"
  by (rule bit_word_eqI) (auto simp add: bit_simps)

lemma ucast_orn32:
  "(ucast (take_bit 32 (take_bit 32 x OR NOT (take_bit 32 y)) :: u64) :: u32) =
     ucast x OR NOT (ucast y)"
  by (rule bit_word_eqI) (auto simp add: bit_simps)

lemma not_1_u32: "(0xFFFFFFFE :: u32) = NOT 1"
  by simp

lemma eon_bool: "(of_bool A XOR NOT (of_bool B) :: u32) = NOT 1 OR of_bool (A = B)"
  by (cases A; cases B) simp_all

lemma orn_bool: "(of_bool A OR NOT (of_bool B) :: u32) = NOT 1 OR of_bool (B \<longrightarrow> A)"
  by (cases A; cases B) simp_all

lemma ucast_of_bool64: "(ucast (of_bool A :: u64) :: u32) = of_bool A"
  by (cases A) simp_all

lemma op_vals:
  assumes "regs t (Tmp 0) = of_bool A" "regs t (Tmp 1) = of_bool B"
  shows
    "(ucast (regs (exec_instr (ANDr (Xreg (Tmp 0)) (Xreg (Tmp 0)) (Xreg (Tmp 1))) t) (Tmp 0)) :: u32)
       = of_bool (A \<and> B)"
    "(ucast (regs (exec_instr (BICr (Xreg (Tmp 0)) (Xreg (Tmp 0)) (Xreg (Tmp 1))) t) (Tmp 0)) :: u32)
       = of_bool (A \<and> \<not> B)"
    "(ucast (regs (exec_instr (EORr (Xreg (Tmp 0)) (Xreg (Tmp 0)) (Xreg (Tmp 1))) t) (Tmp 0)) :: u32)
       = of_bool (A \<noteq> B)"
    "(ucast (regs (exec_instr (ORRr (Xreg (Tmp 0)) (Xreg (Tmp 0)) (Xreg (Tmp 1))) t) (Tmp 0)) :: u32)
       = of_bool (A \<or> B)"
    "(ucast (regs (exec_instr (EONr (Wreg (Tmp 0)) (Wreg (Tmp 0)) (Wreg (Tmp 1))) t) (Tmp 0)) :: u32)
       = 0xFFFFFFFE OR of_bool (A = B)"
    "(ucast (regs (exec_instr (ORNr (Wreg (Tmp 0)) (Wreg (Tmp 0)) (Wreg (Tmp 1))) t) (Tmp 0)) :: u32)
       = 0xFFFFFFFE OR of_bool (B \<longrightarrow> A)"
proof -
  show "(ucast (regs (exec_instr (ANDr (Xreg (Tmp 0)) (Xreg (Tmp 0)) (Xreg (Tmp 1))) t) (Tmp 0)) :: u32)
       = of_bool (A \<and> B)"
    using assms by (simp add: combine_vals)
  show "(ucast (regs (exec_instr (BICr (Xreg (Tmp 0)) (Xreg (Tmp 0)) (Xreg (Tmp 1))) t) (Tmp 0)) :: u32)
       = of_bool (A \<and> \<not> B)"
    using assms by (simp add: combine_vals)
  show "(ucast (regs (exec_instr (EORr (Xreg (Tmp 0)) (Xreg (Tmp 0)) (Xreg (Tmp 1))) t) (Tmp 0)) :: u32)
       = of_bool (A \<noteq> B)"
    using assms by (simp add: combine_vals)
  show "(ucast (regs (exec_instr (ORRr (Xreg (Tmp 0)) (Xreg (Tmp 0)) (Xreg (Tmp 1))) t) (Tmp 0)) :: u32)
       = of_bool (A \<or> B)"
    using assms by (simp add: combine_vals)
  have "regs (exec_instr (EONr (Wreg (Tmp 0)) (Wreg (Tmp 0)) (Wreg (Tmp 1))) t) (Tmp 0) =
        take_bit 32 (take_bit 32 (of_bool A) XOR NOT (take_bit 32 (of_bool B)))"
    using assms by simp
  then show "(ucast (regs (exec_instr (EONr (Wreg (Tmp 0)) (Wreg (Tmp 0)) (Wreg (Tmp 1))) t) (Tmp 0)) :: u32)
       = 0xFFFFFFFE OR of_bool (A = B)"
    by (simp only: ucast_eon32 not_1_u32 eon_bool ucast_of_bool64)
  have "regs (exec_instr (ORNr (Wreg (Tmp 0)) (Wreg (Tmp 0)) (Wreg (Tmp 1))) t) (Tmp 0) =
        take_bit 32 (take_bit 32 (of_bool A) OR NOT (take_bit 32 (of_bool B)))"
    using assms by simp
  then show "(ucast (regs (exec_instr (ORNr (Wreg (Tmp 0)) (Wreg (Tmp 0)) (Wreg (Tmp 1))) t) (Tmp 0)) :: u32)
       = 0xFFFFFFFE OR of_bool (B \<longrightarrow> A)"
    by (simp only: ucast_orn32 not_1_u32 orn_bool ucast_of_bool64)
qed

lemma general_path:
  assumes b: "ba \<le> 3" "bb \<le> 3" "bd \<le> 3"
    and i: "\<And>t. regs t (Tmp 0) = of_bool (CRFlag (cr_word s fa) ba) \<Longrightarrow>
                regs t (Tmp 1) = of_bool (CRFlag (cr_word s fb) bb) \<Longrightarrow>
                (ucast (regs (exec_instr i t) (Tmp 0)) :: u32) =
                  (if hint then 0xFFFFFFFE OR of_bool x else of_bool x)"
  shows "CRFlag (cr_word (exec (GetCRFieldBit fa ba (Xreg (Tmp 0)) @
                                GetCRFieldBit fb bb (Xreg (Tmp 1)) @ [i] @
                                SetCRFieldBit 1 fd bd (Xreg (Tmp 0)) negate hint) s) fd) bd
         = (x \<noteq> negate)"
proof -
  let ?s1 = "exec (GetCRFieldBit fa ba (Xreg (Tmp 0))) s"
  let ?s2 = "exec (GetCRFieldBit fb bb (Xreg (Tmp 1))) ?s1"
  have r1: "regs ?s1 = (regs s)(Tmp 0 := of_bool (CRFlag (cr_word s fa) ba))"
    by (rule Get_regs [OF b(1)])
  have r2: "regs ?s2 = (regs ?s1)(Tmp 1 := of_bool (CRFlag (cr_word ?s1 fb) bb))"
    by (rule Get_regs [OF b(2)])
  have c1: "cr_word ?s1 fb = cr_word s fb"
    by (rule cr_word_regs [OF r1])
  have "regs ?s2 (Tmp 0) = of_bool (CRFlag (cr_word s fa) ba)"
       "regs ?s2 (Tmp 1) = of_bool (CRFlag (cr_word s fb) bb)"
    by (simp_all add: r2 r1 c1 del: One_nat_def)
  then have "(ucast (regs (exec_instr i ?s2) (Tmp 0)) :: u32) =
                  (if hint then 0xFFFFFFFE OR of_bool x else of_bool x)"
    by (rule i)
  then have "(ucast (regs (exec [i] ?s2) (Tmp 0)) :: u32) =
                  (if hint then 0xFFFFFFFE OR of_bool x else of_bool x)"
    by simp
  then show ?thesis
    by (simp only: exec_append Set_flag [OF b(3)])
qed


lemma pass_path:
  assumes b: "ba \<le> 3" "bd \<le> 3"
  shows "CRFlag (cr_word (exec (GetCRFieldBit fa ba (Xreg (Tmp 0)) @
                                SetCRFieldBit 1 fd bd (Xreg (Tmp 0)) negate False) s) fd) bd
         = (CRFlag (cr_word s fa) ba \<noteq> negate)"
proof -
  let ?s1 = "exec (GetCRFieldBit fa ba (Xreg (Tmp 0))) s"
  have "regs ?s1 = (regs s)(Tmp 0 := of_bool (CRFlag (cr_word s fa) ba))"
    by (rule Get_regs [OF b(1)])
  then have "(ucast (regs ?s1 (Tmp 0)) :: u32) =
      (if False then 0xFFFFFFFE OR of_bool (CRFlag (cr_word s fa) ba)
       else of_bool (CRFlag (cr_word s fa) ba))"
    by (simp add: ucast_of_bool64)
  then show ?thesis
    by (simp only: exec_append Set_flag [OF b(2)])
qed

lemma crbit_le3: "3 - (n AND 3) \<le> (3::nat)"
  by simp

lemma cr_bit_after_Some:
  "cr_bit_after (Some code) s i = Some (CRFlag (cr_word (exec code s) (drop_bit 2 i)) (3 - (i AND 3)))"
  by (simp add: cr_bit_after_def run_def guest_cr_bit_def)

lemma crXXX_same:
  assumes "CRBA inst = CRBB inst"
  shows
    "SUBOP10 inst = 129 \<or> SUBOP10 inst = 193 \<Longrightarrow> crXXX False inst =
       Some (ClearCRFieldBit 0 (drop_bit 2 (CRBD inst)) (3 - (CRBD inst AND 3)))"
    "SUBOP10 inst = 289 \<or> SUBOP10 inst = 417 \<Longrightarrow> crXXX False inst =
       Some (SetCRFieldBit_lit 0 (drop_bit 2 (CRBD inst)) (3 - (CRBD inst AND 3)))"
    "SUBOP10 inst = 257 \<or> SUBOP10 inst = 449 \<Longrightarrow> crXXX False inst =
       Some (GetCRFieldBit (drop_bit 2 (CRBA inst)) (3 - (CRBA inst AND 3)) (Xreg (Tmp 0)) @
             SetCRFieldBit 1 (drop_bit 2 (CRBD inst)) (3 - (CRBD inst AND 3)) (Xreg (Tmp 0))
               False False)"
    "SUBOP10 inst = 33 \<or> SUBOP10 inst = 225 \<Longrightarrow> crXXX False inst =
       Some (GetCRFieldBit (drop_bit 2 (CRBA inst)) (3 - (CRBA inst AND 3)) (Xreg (Tmp 0)) @
             SetCRFieldBit 1 (drop_bit 2 (CRBD inst)) (3 - (CRBD inst AND 3)) (Xreg (Tmp 0))
               True False)"
  using assms by (auto simp add: crXXX_def Let_def reg_defs)

lemma crXXX_general:
  assumes "CRBA inst \<noteq> CRBB inst"
  shows "crXXX False inst =
    Some (GetCRFieldBit (drop_bit 2 (CRBA inst)) (3 - (CRBA inst AND 3)) (Xreg (Tmp 0)) @
          GetCRFieldBit (drop_bit 2 (CRBB inst)) (3 - (CRBB inst AND 3)) (Xreg (Tmp 1)) @
          (if SUBOP10 inst = 225 \<or> SUBOP10 inst = 257 then [ANDr (Xreg (Tmp 0)) (Xreg (Tmp 0)) (Xreg (Tmp 1))]
           else if SUBOP10 inst = 129 then [BICr (Xreg (Tmp 0)) (Xreg (Tmp 0)) (Xreg (Tmp 1))]
           else if SUBOP10 inst = 193 then [EORr (Xreg (Tmp 0)) (Xreg (Tmp 0)) (Xreg (Tmp 1))]
           else if SUBOP10 inst = 289 then
             (if 3 - (CRBD inst AND 3) = CR_EQ_BIT \<or> 3 - (CRBD inst AND 3) = CR_GT_BIT
              then [EORr (Xreg (Tmp 0)) (Xreg (Tmp 0)) (Xreg (Tmp 1))]
              else [EONr (Wreg (Tmp 0)) (Wreg (Tmp 0)) (Wreg (Tmp 1))])
           else if SUBOP10 inst = 33 \<or> SUBOP10 inst = 449 then [ORRr (Xreg (Tmp 0)) (Xreg (Tmp 0)) (Xreg (Tmp 1))]
           else if SUBOP10 inst = 417 then [ORNr (Wreg (Tmp 0)) (Wreg (Tmp 0)) (Wreg (Tmp 1))]
           else []) @
          SetCRFieldBit 1 (drop_bit 2 (CRBD inst)) (3 - (CRBD inst AND 3)) (Xreg (Tmp 0))
            (SUBOP10 inst = 33 \<or> SUBOP10 inst = 225 \<or>
             (SUBOP10 inst = 289 \<and>
              (3 - (CRBD inst AND 3) = CR_EQ_BIT \<or> 3 - (CRBD inst AND 3) = CR_GT_BIT)))
            ((SUBOP10 inst = 289 \<and>
              \<not> (3 - (CRBD inst AND 3) = CR_EQ_BIT \<or> 3 - (CRBD inst AND 3) = CR_GT_BIT)) \<or>
             SUBOP10 inst = 417))"
  using assms by (auto simp add: crXXX_def Let_def reg_defs)


lemma general_path_plain:
  assumes "ba \<le> 3" "bb \<le> 3" "bd \<le> 3"
    and "\<And>t. regs t (Tmp 0) = of_bool (CRFlag (cr_word s fa) ba) \<Longrightarrow>
                regs t (Tmp 1) = of_bool (CRFlag (cr_word s fb) bb) \<Longrightarrow>
                (ucast (regs (exec_instr i t) (Tmp 0)) :: u32) = of_bool x"
  shows "CRFlag (cr_word (exec (GetCRFieldBit fa ba (Xreg (Tmp 0)) @
                                GetCRFieldBit fb bb (Xreg (Tmp 1)) @ [i] @
                                SetCRFieldBit 1 fd bd (Xreg (Tmp 0)) negate False) s) fd) bd
         = (x \<noteq> negate)"
  by (rule general_path [OF assms(1-3)]) (simp add: assms(4))

lemma general_path_hint:
  assumes "ba \<le> 3" "bb \<le> 3" "bd \<le> 3"
    and "\<And>t. regs t (Tmp 0) = of_bool (CRFlag (cr_word s fa) ba) \<Longrightarrow>
                regs t (Tmp 1) = of_bool (CRFlag (cr_word s fb) bb) \<Longrightarrow>
                (ucast (regs (exec_instr i t) (Tmp 0)) :: u32) = 0xFFFFFFFE OR of_bool x"
  shows "CRFlag (cr_word (exec (GetCRFieldBit fa ba (Xreg (Tmp 0)) @
                                GetCRFieldBit fb bb (Xreg (Tmp 1)) @ [i] @
                                SetCRFieldBit 1 fd bd (Xreg (Tmp 0)) negate True) s) fd) bd
         = (x \<noteq> negate)"
  by (rule general_path [OF assms(1-3)]) (simp add: assms(4))

lemmas le3 = crbit_le3 crbit_le3 crbit_le3


lemma crXXX_crand:
  assumes "SUBOP10 inst = 257"
  shows "cr_bit_after (crXXX False inst) s (CRBD inst) = Some (guest_cr_bit s (CRBA inst) \<and> guest_cr_bit s (CRBB inst))"
proof (cases "CRBA inst = CRBB inst")
  case True
  show ?thesis
    unfolding crXXX_same(3) [OF True disjI1 [OF assms]] cr_bit_after_Some
    using pass_path [where ba = "3 - (CRBA inst AND 3)" and bd = "3 - (CRBD inst AND 3)" and fa = "drop_bit 2 (CRBA inst)" and fd = "drop_bit 2 (CRBD inst)" and negate = False and s = s, OF crbit_le3 crbit_le3] True
    by (simp add: guest_cr_bit_def)
next
  case False
  let ?A = "CRFlag (cr_word s (drop_bit 2 (CRBA inst))) (3 - (CRBA inst AND 3))"
  let ?B = "CRFlag (cr_word s (drop_bit 2 (CRBB inst))) (3 - (CRBB inst AND 3))"
  let ?code = "GetCRFieldBit (drop_bit 2 (CRBA inst)) (3 - (CRBA inst AND 3)) (Xreg (Tmp 0)) @
          GetCRFieldBit (drop_bit 2 (CRBB inst)) (3 - (CRBB inst AND 3)) (Xreg (Tmp 1)) @
          [ANDr (Xreg (Tmp 0)) (Xreg (Tmp 0)) (Xreg (Tmp 1))] @
          SetCRFieldBit 1 (drop_bit 2 (CRBD inst)) (3 - (CRBD inst AND 3)) (Xreg (Tmp 0)) False False"
  have code: "crXXX False inst = Some ?code"
    using crXXX_general [OF False] assms by simp
  have "CRFlag (cr_word (exec ?code s) (drop_bit 2 (CRBD inst))) (3 - (CRBD inst AND 3)) =
        ((?A \<and> ?B) \<noteq> False)"
    by (rule general_path_plain [OF le3]) (rule op_vals(1); assumption)
  then show ?thesis
    unfolding code cr_bit_after_Some guest_cr_bit_def by auto
qed

lemma crXXX_crnand:
  assumes "SUBOP10 inst = 225"
  shows "cr_bit_after (crXXX False inst) s (CRBD inst) = Some (\<not> (guest_cr_bit s (CRBA inst) \<and> guest_cr_bit s (CRBB inst)))"
proof (cases "CRBA inst = CRBB inst")
  case True
  show ?thesis
    unfolding crXXX_same(4) [OF True disjI2 [OF assms]] cr_bit_after_Some
    using pass_path [where ba = "3 - (CRBA inst AND 3)" and bd = "3 - (CRBD inst AND 3)" and fa = "drop_bit 2 (CRBA inst)" and fd = "drop_bit 2 (CRBD inst)" and negate = True and s = s, OF crbit_le3 crbit_le3] True
    by (simp add: guest_cr_bit_def)
next
  case False
  let ?A = "CRFlag (cr_word s (drop_bit 2 (CRBA inst))) (3 - (CRBA inst AND 3))"
  let ?B = "CRFlag (cr_word s (drop_bit 2 (CRBB inst))) (3 - (CRBB inst AND 3))"
  let ?code = "GetCRFieldBit (drop_bit 2 (CRBA inst)) (3 - (CRBA inst AND 3)) (Xreg (Tmp 0)) @
          GetCRFieldBit (drop_bit 2 (CRBB inst)) (3 - (CRBB inst AND 3)) (Xreg (Tmp 1)) @
          [ANDr (Xreg (Tmp 0)) (Xreg (Tmp 0)) (Xreg (Tmp 1))] @
          SetCRFieldBit 1 (drop_bit 2 (CRBD inst)) (3 - (CRBD inst AND 3)) (Xreg (Tmp 0)) True False"
  have code: "crXXX False inst = Some ?code"
    using crXXX_general [OF False] assms by simp
  have "CRFlag (cr_word (exec ?code s) (drop_bit 2 (CRBD inst))) (3 - (CRBD inst AND 3)) =
        ((?A \<and> ?B) \<noteq> True)"
    by (rule general_path_plain [OF le3]) (rule op_vals(1); assumption)
  then show ?thesis
    unfolding code cr_bit_after_Some guest_cr_bit_def by auto
qed

lemma crXXX_crandc:
  assumes "SUBOP10 inst = 129"
  shows "cr_bit_after (crXXX False inst) s (CRBD inst) = Some (guest_cr_bit s (CRBA inst) \<and> \<not> guest_cr_bit s (CRBB inst))"
proof (cases "CRBA inst = CRBB inst")
  case True
  show ?thesis
    unfolding crXXX_same(1) [OF True disjI1 [OF assms]] cr_bit_after_Some
    using Clear_flag [where b = "3 - (CRBD inst AND 3)" and f = "drop_bit 2 (CRBD inst)" and s = s, OF crbit_le3] True
    by (simp add: guest_cr_bit_def)
next
  case False
  let ?A = "CRFlag (cr_word s (drop_bit 2 (CRBA inst))) (3 - (CRBA inst AND 3))"
  let ?B = "CRFlag (cr_word s (drop_bit 2 (CRBB inst))) (3 - (CRBB inst AND 3))"
  let ?code = "GetCRFieldBit (drop_bit 2 (CRBA inst)) (3 - (CRBA inst AND 3)) (Xreg (Tmp 0)) @
          GetCRFieldBit (drop_bit 2 (CRBB inst)) (3 - (CRBB inst AND 3)) (Xreg (Tmp 1)) @
          [BICr (Xreg (Tmp 0)) (Xreg (Tmp 0)) (Xreg (Tmp 1))] @
          SetCRFieldBit 1 (drop_bit 2 (CRBD inst)) (3 - (CRBD inst AND 3)) (Xreg (Tmp 0)) False False"
  have code: "crXXX False inst = Some ?code"
    using crXXX_general [OF False] assms by simp
  have "CRFlag (cr_word (exec ?code s) (drop_bit 2 (CRBD inst))) (3 - (CRBD inst AND 3)) =
        ((?A \<and> \<not> ?B) \<noteq> False)"
    by (rule general_path_plain [OF le3]) (rule op_vals(2); assumption)
  then show ?thesis
    unfolding code cr_bit_after_Some guest_cr_bit_def by auto
qed

lemma crXXX_crxor:
  assumes "SUBOP10 inst = 193"
  shows "cr_bit_after (crXXX False inst) s (CRBD inst) = Some (guest_cr_bit s (CRBA inst) \<noteq> guest_cr_bit s (CRBB inst))"
proof (cases "CRBA inst = CRBB inst")
  case True
  show ?thesis
    unfolding crXXX_same(1) [OF True disjI2 [OF assms]] cr_bit_after_Some
    using Clear_flag [where b = "3 - (CRBD inst AND 3)" and f = "drop_bit 2 (CRBD inst)" and s = s, OF crbit_le3] True
    by (simp add: guest_cr_bit_def)
next
  case False
  let ?A = "CRFlag (cr_word s (drop_bit 2 (CRBA inst))) (3 - (CRBA inst AND 3))"
  let ?B = "CRFlag (cr_word s (drop_bit 2 (CRBB inst))) (3 - (CRBB inst AND 3))"
  let ?code = "GetCRFieldBit (drop_bit 2 (CRBA inst)) (3 - (CRBA inst AND 3)) (Xreg (Tmp 0)) @
          GetCRFieldBit (drop_bit 2 (CRBB inst)) (3 - (CRBB inst AND 3)) (Xreg (Tmp 1)) @
          [EORr (Xreg (Tmp 0)) (Xreg (Tmp 0)) (Xreg (Tmp 1))] @
          SetCRFieldBit 1 (drop_bit 2 (CRBD inst)) (3 - (CRBD inst AND 3)) (Xreg (Tmp 0)) False False"
  have code: "crXXX False inst = Some ?code"
    using crXXX_general [OF False] assms by simp
  have "CRFlag (cr_word (exec ?code s) (drop_bit 2 (CRBD inst))) (3 - (CRBD inst AND 3)) =
        ((?A \<noteq> ?B) \<noteq> False)"
    by (rule general_path_plain [OF le3]) (rule op_vals(3); assumption)
  then show ?thesis
    unfolding code cr_bit_after_Some guest_cr_bit_def by auto
qed

lemma crXXX_cror:
  assumes "SUBOP10 inst = 449"
  shows "cr_bit_after (crXXX False inst) s (CRBD inst) = Some (guest_cr_bit s (CRBA inst) \<or> guest_cr_bit s (CRBB inst))"
proof (cases "CRBA inst = CRBB inst")
  case True
  show ?thesis
    unfolding crXXX_same(3) [OF True disjI2 [OF assms]] cr_bit_after_Some
    using pass_path [where ba = "3 - (CRBA inst AND 3)" and bd = "3 - (CRBD inst AND 3)" and fa = "drop_bit 2 (CRBA inst)" and fd = "drop_bit 2 (CRBD inst)" and negate = False and s = s, OF crbit_le3 crbit_le3] True
    by (simp add: guest_cr_bit_def)
next
  case False
  let ?A = "CRFlag (cr_word s (drop_bit 2 (CRBA inst))) (3 - (CRBA inst AND 3))"
  let ?B = "CRFlag (cr_word s (drop_bit 2 (CRBB inst))) (3 - (CRBB inst AND 3))"
  let ?code = "GetCRFieldBit (drop_bit 2 (CRBA inst)) (3 - (CRBA inst AND 3)) (Xreg (Tmp 0)) @
          GetCRFieldBit (drop_bit 2 (CRBB inst)) (3 - (CRBB inst AND 3)) (Xreg (Tmp 1)) @
          [ORRr (Xreg (Tmp 0)) (Xreg (Tmp 0)) (Xreg (Tmp 1))] @
          SetCRFieldBit 1 (drop_bit 2 (CRBD inst)) (3 - (CRBD inst AND 3)) (Xreg (Tmp 0)) False False"
  have code: "crXXX False inst = Some ?code"
    using crXXX_general [OF False] assms by simp
  have "CRFlag (cr_word (exec ?code s) (drop_bit 2 (CRBD inst))) (3 - (CRBD inst AND 3)) =
        ((?A \<or> ?B) \<noteq> False)"
    by (rule general_path_plain [OF le3]) (rule op_vals(4); assumption)
  then show ?thesis
    unfolding code cr_bit_after_Some guest_cr_bit_def by auto
qed

lemma crXXX_crnor:
  assumes "SUBOP10 inst = 33"
  shows "cr_bit_after (crXXX False inst) s (CRBD inst) = Some (\<not> (guest_cr_bit s (CRBA inst) \<or> guest_cr_bit s (CRBB inst)))"
proof (cases "CRBA inst = CRBB inst")
  case True
  show ?thesis
    unfolding crXXX_same(4) [OF True disjI1 [OF assms]] cr_bit_after_Some
    using pass_path [where ba = "3 - (CRBA inst AND 3)" and bd = "3 - (CRBD inst AND 3)" and fa = "drop_bit 2 (CRBA inst)" and fd = "drop_bit 2 (CRBD inst)" and negate = True and s = s, OF crbit_le3 crbit_le3] True
    by (simp add: guest_cr_bit_def)
next
  case False
  let ?A = "CRFlag (cr_word s (drop_bit 2 (CRBA inst))) (3 - (CRBA inst AND 3))"
  let ?B = "CRFlag (cr_word s (drop_bit 2 (CRBB inst))) (3 - (CRBB inst AND 3))"
  let ?code = "GetCRFieldBit (drop_bit 2 (CRBA inst)) (3 - (CRBA inst AND 3)) (Xreg (Tmp 0)) @
          GetCRFieldBit (drop_bit 2 (CRBB inst)) (3 - (CRBB inst AND 3)) (Xreg (Tmp 1)) @
          [ORRr (Xreg (Tmp 0)) (Xreg (Tmp 0)) (Xreg (Tmp 1))] @
          SetCRFieldBit 1 (drop_bit 2 (CRBD inst)) (3 - (CRBD inst AND 3)) (Xreg (Tmp 0)) True False"
  have code: "crXXX False inst = Some ?code"
    using crXXX_general [OF False] assms by simp
  have "CRFlag (cr_word (exec ?code s) (drop_bit 2 (CRBD inst))) (3 - (CRBD inst AND 3)) =
        ((?A \<or> ?B) \<noteq> True)"
    by (rule general_path_plain [OF le3]) (rule op_vals(4); assumption)
  then show ?thesis
    unfolding code cr_bit_after_Some guest_cr_bit_def by auto
qed

lemma crXXX_crorc:
  assumes "SUBOP10 inst = 417"
  shows "cr_bit_after (crXXX False inst) s (CRBD inst) = Some (guest_cr_bit s (CRBA inst) \<or> \<not> guest_cr_bit s (CRBB inst))"
proof (cases "CRBA inst = CRBB inst")
  case True
  show ?thesis
    unfolding crXXX_same(2) [OF True disjI2 [OF assms]] cr_bit_after_Some
    using Set_lit_flag [where b = "3 - (CRBD inst AND 3)" and f = "drop_bit 2 (CRBD inst)" and s = s, OF crbit_le3] True
    by (simp add: guest_cr_bit_def)
next
  case False
  let ?A = "CRFlag (cr_word s (drop_bit 2 (CRBA inst))) (3 - (CRBA inst AND 3))"
  let ?B = "CRFlag (cr_word s (drop_bit 2 (CRBB inst))) (3 - (CRBB inst AND 3))"
  let ?code = "GetCRFieldBit (drop_bit 2 (CRBA inst)) (3 - (CRBA inst AND 3)) (Xreg (Tmp 0)) @
          GetCRFieldBit (drop_bit 2 (CRBB inst)) (3 - (CRBB inst AND 3)) (Xreg (Tmp 1)) @
          [ORNr (Wreg (Tmp 0)) (Wreg (Tmp 0)) (Wreg (Tmp 1))] @
          SetCRFieldBit 1 (drop_bit 2 (CRBD inst)) (3 - (CRBD inst AND 3)) (Xreg (Tmp 0)) False True"
  have code: "crXXX False inst = Some ?code"
    using crXXX_general [OF False] assms by simp
  have "CRFlag (cr_word (exec ?code s) (drop_bit 2 (CRBD inst))) (3 - (CRBD inst AND 3)) =
        ((?B \<longrightarrow> ?A) \<noteq> False)"
    by (rule general_path_hint [OF le3]) (rule op_vals(6); assumption)
  then show ?thesis
    unfolding code cr_bit_after_Some guest_cr_bit_def by auto
qed


lemma creqv_EOR_flag:
  "guest_cr_bit (exec (creqv_EOR_form a b d) s) d = (guest_cr_bit s a = guest_cr_bit s b)"
proof -
  let ?A = "CRFlag (cr_word s (drop_bit 2 a)) (3 - (a AND 3))"
  let ?B = "CRFlag (cr_word s (drop_bit 2 b)) (3 - (b AND 3))"
  let ?code = "GetCRFieldBit (drop_bit 2 a) (3 - (a AND 3)) (Xreg (Tmp 0)) @
         GetCRFieldBit (drop_bit 2 b) (3 - (b AND 3)) (Xreg (Tmp 1)) @
         [EORr (Xreg (Tmp 0)) (Xreg (Tmp 0)) (Xreg (Tmp 1))] @
         SetCRFieldBit 1 (drop_bit 2 d) (3 - (d AND 3)) (Xreg (Tmp 0)) True False"
  have code: "creqv_EOR_form a b d = ?code"
    by (simp add: creqv_EOR_form_def Let_def reg_defs)
  have "CRFlag (cr_word (exec ?code s) (drop_bit 2 d)) (3 - (d AND 3)) = ((?A \<noteq> ?B) \<noteq> True)"
    by (rule general_path_plain [OF le3]) (rule op_vals(3); assumption)
  then show ?thesis
    unfolding code guest_cr_bit_def by auto
qed

lemma creqv_EON_flag:
  "guest_cr_bit (exec (creqv_EON_form a b d) s) d = (guest_cr_bit s a = guest_cr_bit s b)"
proof -
  let ?A = "CRFlag (cr_word s (drop_bit 2 a)) (3 - (a AND 3))"
  let ?B = "CRFlag (cr_word s (drop_bit 2 b)) (3 - (b AND 3))"
  let ?code = "GetCRFieldBit (drop_bit 2 a) (3 - (a AND 3)) (Xreg (Tmp 0)) @
         GetCRFieldBit (drop_bit 2 b) (3 - (b AND 3)) (Xreg (Tmp 1)) @
         [EONr (Wreg (Tmp 0)) (Wreg (Tmp 0)) (Wreg (Tmp 1))] @
         SetCRFieldBit 1 (drop_bit 2 d) (3 - (d AND 3)) (Xreg (Tmp 0)) False True"
  have code: "creqv_EON_form a b d = ?code"
    by (simp add: creqv_EON_form_def Let_def reg_defs)
  have "CRFlag (cr_word (exec ?code s) (drop_bit 2 d)) (3 - (d AND 3)) = ((?A = ?B) \<noteq> False)"
    by (rule general_path_hint [OF le3]) (rule op_vals(5); assumption)
  then show ?thesis
    unfolding code guest_cr_bit_def by auto
qed

lemma crXXX_creqv_forms:
  assumes "CRBA inst \<noteq> CRBB inst" "SUBOP10 inst = 289"
  shows "crXXX False inst =
    Some (if 3 - (CRBD inst AND 3) = CR_EQ_BIT \<or> 3 - (CRBD inst AND 3) = CR_GT_BIT
          then creqv_EOR_form (CRBA inst) (CRBB inst) (CRBD inst)
          else creqv_EON_form (CRBA inst) (CRBB inst) (CRBD inst))"
  using crXXX_general [OF assms(1)] assms(2)
  by (simp add: creqv_EOR_form_def creqv_EON_form_def Let_def reg_defs)

lemma crXXX_creqv:
  assumes "SUBOP10 inst = 289"
  shows "cr_bit_after (crXXX False inst) s (CRBD inst) =
         Some (guest_cr_bit s (CRBA inst) = guest_cr_bit s (CRBB inst))"
proof (cases "CRBA inst = CRBB inst")
  case True
  show ?thesis
    unfolding crXXX_same(2) [OF True disjI1 [OF assms]] cr_bit_after_Some
    using Set_lit_flag [where b = "3 - (CRBD inst AND 3)" and f = "drop_bit 2 (CRBD inst)" and s = s, OF crbit_le3] True
    by (simp add: guest_cr_bit_def)
next
  case False
  show ?thesis
    unfolding crXXX_creqv_forms [OF False assms]
    by (simp add: cr_bit_after_def run_def creqv_EOR_flag creqv_EON_flag)
qed


text \<open>
  C5. Whatever the two source bits \<^verbatim>\<open>CRBA\<close> and \<^verbatim>\<open>CRBB\<close> and the destination bit
  \<^verbatim>\<open>CRBD\<close> are, equal or not, in one field or several, the code that \<^verbatim>\<open>crXXX\<close> emits
  leaves in the destination bit the value of the opcode's truth table on the two source
  bits as they were before: crand (257), cror (449), crxor (193), crnand (225), crnor
  (33), crandc (129), crorc (417), creqv (289). When the two source bits are the same
  bit, the handler emits the special cases: \<^verbatim>\<open>ClearCRFieldBit\<close> for crandc and crxor,
  the literal \<^verbatim>\<open>SetCRFieldBit\<close> for creqv and crorc, and one \<^verbatim>\<open>GetCRFieldBit\<close> followed by
  \<^verbatim>\<open>SetCRFieldBit\<close> for the others, with \<^verbatim>\<open>negate\<close> for crnor and crnand.
\<close>

theorem crXXX_truth_tables:
  "cr_bit_after (crXXX False (inst\<lparr>SUBOP10 := 257\<rparr>)) s (CRBD inst) =
     Some (guest_cr_bit s (CRBA inst) \<and> guest_cr_bit s (CRBB inst)) \<and>
   cr_bit_after (crXXX False (inst\<lparr>SUBOP10 := 449\<rparr>)) s (CRBD inst) =
     Some (guest_cr_bit s (CRBA inst) \<or> guest_cr_bit s (CRBB inst)) \<and>
   cr_bit_after (crXXX False (inst\<lparr>SUBOP10 := 193\<rparr>)) s (CRBD inst) =
     Some (guest_cr_bit s (CRBA inst) \<noteq> guest_cr_bit s (CRBB inst)) \<and>
   cr_bit_after (crXXX False (inst\<lparr>SUBOP10 := 225\<rparr>)) s (CRBD inst) =
     Some (\<not> (guest_cr_bit s (CRBA inst) \<and> guest_cr_bit s (CRBB inst))) \<and>
   cr_bit_after (crXXX False (inst\<lparr>SUBOP10 := 33\<rparr>)) s (CRBD inst) =
     Some (\<not> (guest_cr_bit s (CRBA inst) \<or> guest_cr_bit s (CRBB inst))) \<and>
   cr_bit_after (crXXX False (inst\<lparr>SUBOP10 := 129\<rparr>)) s (CRBD inst) =
     Some (guest_cr_bit s (CRBA inst) \<and> \<not> guest_cr_bit s (CRBB inst)) \<and>
   cr_bit_after (crXXX False (inst\<lparr>SUBOP10 := 417\<rparr>)) s (CRBD inst) =
     Some (guest_cr_bit s (CRBA inst) \<or> \<not> guest_cr_bit s (CRBB inst)) \<and>
   cr_bit_after (crXXX False (inst\<lparr>SUBOP10 := 289\<rparr>)) s (CRBD inst) =
     Some (guest_cr_bit s (CRBA inst) = guest_cr_bit s (CRBB inst)) \<and>
   crXXX False (inst\<lparr>CRBB := CRBA inst, SUBOP10 := 129\<rparr>) =
     Some (ClearCRFieldBit 0 (drop_bit 2 (CRBD inst)) (3 - (CRBD inst AND 3))) \<and>
   crXXX False (inst\<lparr>CRBB := CRBA inst, SUBOP10 := 193\<rparr>) =
     Some (ClearCRFieldBit 0 (drop_bit 2 (CRBD inst)) (3 - (CRBD inst AND 3))) \<and>
   crXXX False (inst\<lparr>CRBB := CRBA inst, SUBOP10 := 289\<rparr>) =
     Some (SetCRFieldBit_lit 0 (drop_bit 2 (CRBD inst)) (3 - (CRBD inst AND 3))) \<and>
   crXXX False (inst\<lparr>CRBB := CRBA inst, SUBOP10 := 417\<rparr>) =
     Some (SetCRFieldBit_lit 0 (drop_bit 2 (CRBD inst)) (3 - (CRBD inst AND 3))) \<and>
   crXXX False (inst\<lparr>CRBB := CRBA inst, SUBOP10 := 257\<rparr>) =
     Some (GetCRFieldBit (drop_bit 2 (CRBA inst)) (3 - (CRBA inst AND 3)) (Xreg (Tmp 0)) @
           SetCRFieldBit 1 (drop_bit 2 (CRBD inst)) (3 - (CRBD inst AND 3)) (Xreg (Tmp 0))
             False False) \<and>
   crXXX False (inst\<lparr>CRBB := CRBA inst, SUBOP10 := 449\<rparr>) =
     Some (GetCRFieldBit (drop_bit 2 (CRBA inst)) (3 - (CRBA inst AND 3)) (Xreg (Tmp 0)) @
           SetCRFieldBit 1 (drop_bit 2 (CRBD inst)) (3 - (CRBD inst AND 3)) (Xreg (Tmp 0))
             False False) \<and>
   crXXX False (inst\<lparr>CRBB := CRBA inst, SUBOP10 := 33\<rparr>) =
     Some (GetCRFieldBit (drop_bit 2 (CRBA inst)) (3 - (CRBA inst AND 3)) (Xreg (Tmp 0)) @
           SetCRFieldBit 1 (drop_bit 2 (CRBD inst)) (3 - (CRBD inst AND 3)) (Xreg (Tmp 0))
             True False) \<and>
   crXXX False (inst\<lparr>CRBB := CRBA inst, SUBOP10 := 225\<rparr>) =
     Some (GetCRFieldBit (drop_bit 2 (CRBA inst)) (3 - (CRBA inst AND 3)) (Xreg (Tmp 0)) @
           SetCRFieldBit 1 (drop_bit 2 (CRBD inst)) (3 - (CRBD inst AND 3)) (Xreg (Tmp 0))
             True False)"
proof -
  have t: "SUBOP10 (inst\<lparr>SUBOP10 := n\<rparr>) = n" for n
    by simp
  have e: "CRBA (inst\<lparr>CRBB := CRBA inst, SUBOP10 := n\<rparr>) =
           CRBB (inst\<lparr>CRBB := CRBA inst, SUBOP10 := n\<rparr>)" for n
    by simp
  show ?thesis
    using crXXX_crand [OF t, of s] crXXX_cror [OF t, of s] crXXX_crxor [OF t, of s]
      crXXX_crnand [OF t, of s] crXXX_crnor [OF t, of s] crXXX_crandc [OF t, of s]
      crXXX_crorc [OF t, of s] crXXX_creqv [OF t, of s]
      crXXX_same(1) [OF e, of 129] crXXX_same(1) [OF e, of 193]
      crXXX_same(2) [OF e, of 289] crXXX_same(2) [OF e, of 417]
      crXXX_same(3) [OF e, of 257] crXXX_same(3) [OF e, of 449]
      crXXX_same(4) [OF e, of 33] crXXX_same(4) [OF e, of 225]
    by simp
qed

text \<open>
  C9. For \<^verbatim>\<open>creqv\<close> with distinct source bits, \<^verbatim>\<open>crXXX\<close> emits the \<^verbatim>\<open>EOR\<close> form with
  \<^verbatim>\<open>negate_result\<close> when the destination flag is EQ or GT, and the \<^verbatim>\<open>EON\<close> form with
  \<^verbatim>\<open>bits_1_to_31_are_set\<close> otherwise. Each of the two forms, for any source bits \<open>a\<close>
  and \<open>b\<close>, any destination bit \<open>d\<close> and any starting state, leaves in \<open>d\<close> the negation
  of the exclusive or of the two source bits: the forms write the same flag value.
\<close>

theorem creqv_forms_agree:
  assumes "CRBA inst \<noteq> CRBB inst" and "SUBOP10 inst = 289"
  shows
    "crXXX False inst =
       Some (if 3 - (CRBD inst AND 3) = CR_EQ_BIT \<or> 3 - (CRBD inst AND 3) = CR_GT_BIT
             then creqv_EOR_form (CRBA inst) (CRBB inst) (CRBD inst)
             else creqv_EON_form (CRBA inst) (CRBB inst) (CRBD inst)) \<and>
     guest_cr_bit (exec (creqv_EOR_form a b d) s) d = (guest_cr_bit s a = guest_cr_bit s b) \<and>
     guest_cr_bit (exec (creqv_EON_form a b d) s) d = (guest_cr_bit s a = guest_cr_bit s b) \<and>
     guest_cr_bit (exec (creqv_EOR_form a b d) s) d = guest_cr_bit (exec (creqv_EON_form a b d) s) d"
  using crXXX_creqv_forms [OF assms] by (simp only: creqv_EOR_flag creqv_EON_flag simp_thms)

theorem creqv_forms_agree_witness:
  "CRBA (inst0\<lparr>SUBOP10 := 289, CRBA := 0, CRBB := 1, CRBD := 2\<rparr>) \<noteq>
     CRBB (inst0\<lparr>SUBOP10 := 289, CRBA := 0, CRBB := 1, CRBD := 2\<rparr>) \<and>
   SUBOP10 (inst0\<lparr>SUBOP10 := 289, CRBA := 0, CRBB := 1, CRBD := 2\<rparr>) = 289 \<and>
   crXXX False (inst0\<lparr>SUBOP10 := 289, CRBA := 0, CRBB := 1, CRBD := 2\<rparr>) =
     Some (creqv_EOR_form 0 1 2) \<and>
   guest_cr_bit (exec (creqv_EOR_form 0 1 2) (reg_state 0)) 2 \<and>
   guest_cr_bit (exec (creqv_EON_form 0 1 2) (reg_state 0)) 2"
proof -
  let ?i = "inst0\<lparr>SUBOP10 := 289, CRBA := 0, CRBB := 1, CRBD := 2\<rparr>"
  have h: "CRBA ?i \<noteq> CRBB ?i" "SUBOP10 ?i = 289"
    by simp_all
  have d: "3 - ((2::nat) AND 3) = CR_EQ_BIT" "CRBA ?i = 0" "CRBB ?i = 1" "CRBD ?i = 2"
    by (simp_all add: cr_consts)
  have g: "guest_cr_bit (reg_state 0) 0 = guest_cr_bit (reg_state 0) 1"
    by (simp add: guest_cr_bit_def CRFlag_def cr_consts)
  show ?thesis
    using h g creqv_forms_agree [OF h, of 0 1 2 "reg_state 0"]
    by (simp only: d if_True simp_thms)
qed

section \<open>The trap instructions\<close>

lemma sub_flags_signed:
  fixes a b :: "'a::len word"
  shows "(sint (a - b) < 0) \<noteq> (sint a - sint b \<noteq> sint (a - b)) \<longleftrightarrow> sint a < sint b"
proof -
  define n where "n = LENGTH('a) - 1"
  define d where "d = sint a - sint b"
  define t where "t = signed_take_bit n d"
  have ra: "- (2 ^ n) \<le> sint a" "sint a < 2 ^ n" and rb: "- (2 ^ n) \<le> sint b" "sint b < 2 ^ n"
    using sint_ge [of a] sint_lt [of a] sint_ge [of b] sint_lt [of b] by (simp_all add: n_def)
  have s: "sint (a - b) = t"
    by (simp add: sint_word_ariths t_def d_def n_def)
  have p: "(2::int) ^ Suc n = 2 ^ n + 2 ^ n"
    by simp
  have c: "(- (2 ^ n) \<le> d \<and> d < 2 ^ n \<and> t = d) \<or> (2 ^ n \<le> d \<and> t \<le> d - 2 ^ Suc n) \<or>
           (d < - (2 ^ n) \<and> d + 2 ^ Suc n \<le> t)"
    using signed_take_bit_int_eq_self [of n d] signed_take_bit_int_less_eq [of n d]
      signed_take_bit_int_greater_eq [of d n]
    unfolding t_def by linarith
  show ?thesis
    unfolding s d_def [symmetric] using c ra rb p unfolding d_def by auto
qed

lemma cond_after_cmp32:
  fixes x y :: u64
  defines "a \<equiv> (ucast x :: u32)" and "b \<equiv> (ucast y :: u32)"
  shows "cond_holds CC_LT (cmp_flags False x y s) \<longleftrightarrow> a <s b"
    "cond_holds CC_GT (cmp_flags False x y s) \<longleftrightarrow> b <s a"
    "cond_holds CC_EQ (cmp_flags False x y s) \<longleftrightarrow> a = b"
    "cond_holds CC_VC (cmp_flags False x y s) \<longleftrightarrow> sint a - sint b = sint (a - b)"
    "cond_holds CC_VS (cmp_flags False x y s) \<longleftrightarrow> sint a - sint b \<noteq> sint (a - b)"
proof -
  show "cond_holds CC_LT (cmp_flags False x y s) \<longleftrightarrow> a <s b"
    using sub_flags_signed [of a b] by (simp add: a_def b_def word_sless_alt)
  have inj: "sint a = sint b \<Longrightarrow> a = b"
    by (rule signed_word_eqI)
  have "cond_holds CC_GT (cmp_flags False x y s) \<longleftrightarrow> a \<noteq> b \<and> \<not> sint a < sint b"
    using sub_flags_signed [of a b] by (auto simp add: a_def b_def)
  also have "\<dots> \<longleftrightarrow> sint a \<noteq> sint b \<and> \<not> sint a < sint b"
    using inj by blast
  also have "\<dots> \<longleftrightarrow> sint b < sint a"
    by linarith
  finally show "cond_holds CC_GT (cmp_flags False x y s) \<longleftrightarrow> b <s a"
    by (simp add: word_sless_alt)
qed (simp_all add: a_def b_def)

lemma ucast_scast16: "(ucast (scast (i :: 16 word) :: u64) :: u32) = scast i"
  by (rule bit_word_eqI) (auto simp add: bit_simps)

lemma twx_fixups:
  "list_ex P (map (\<lambda>i. twx_conditions ! i)
       (filter (\<lambda>i. t AND push_bit i 1 \<noteq> 0) [0..<length twx_conditions])) \<longleftrightarrow>
   (t AND 1 \<noteq> 0 \<and> P CC_LT) \<or> (t AND 2 \<noteq> 0 \<and> P CC_GT) \<or> (t AND 4 \<noteq> 0 \<and> P CC_EQ) \<or>
   (t AND 8 \<noteq> 0 \<and> P CC_VC) \<or> (t AND 16 \<noteq> 0 \<and> P CC_VS)" for t :: nat
  by (simp add: twx_conditions_def upt_rec)


text \<open>
  What the emitted code of \<^verbatim>\<open>twx\<close> does, for every instruction and state: with \<open>a\<close>
  the 32-bit value of \<^verbatim>\<open>rA\<close> and \<open>b\<close> that of \<^verbatim>\<open>rB\<close> or the sign-extended
  immediate, bit 0 of \<^verbatim>\<open>TO\<close> selects signed less, bit 1 signed greater, bit 2 equal,
  bit 3 "the subtraction \<open>a - b\<close> did not overflow" and bit 4 "it overflowed".
\<close>

lemma twx_trap_condition:
  "\<exists>code. twx c False cc js inst = Some code \<and>
     (let a = (ucast (regs s (GPRh (RA inst))) :: u32);
          b = (if OPCD inst = 3 then scast (SIMM_16 inst)
               else (ucast (regs s (GPRh (RB inst))) :: u32))
      in twx_trap_taken code s \<longleftrightarrow>
         (TO inst AND 1 \<noteq> 0 \<and> a <s b) \<or>
         (TO inst AND 2 \<noteq> 0 \<and> b <s a) \<or>
         (TO inst AND 4 \<noteq> 0 \<and> a = b) \<or>
         (TO inst AND 8 \<noteq> 0 \<and> sint a - sint b = sint (a - b)) \<or>
         (TO inst AND 16 \<noteq> 0 \<and> sint a - sint b \<noteq> sint (a - b)))"
proof -
  obtain code where code: "twx c False cc js inst = Some code"
    by (simp add: twx_def Let_def)
  have fx: "tw_fixups code =
      map (\<lambda>i. twx_conditions ! i)
        (filter (\<lambda>i. TO inst AND push_bit i 1 \<noteq> 0) [0..<length twx_conditions])"
    using code by (auto simp add: twx_def Let_def)
  have cm: "tw_compare code =
      (if OPCD inst = 3 then CMPi (gpr_R (RA inst)) (scast (SIMM_16 inst))
       else CMPr (gpr_R (RA inst)) (gpr_R (RB inst)))"
    using code by (auto simp add: twx_def Let_def)
  have "twx_trap_taken code s \<longleftrightarrow>
      (let a = (ucast (regs s (GPRh (RA inst))) :: u32);
          b = (if OPCD inst = 3 then scast (SIMM_16 inst)
               else (ucast (regs s (GPRh (RB inst))) :: u32))
      in (TO inst AND 1 \<noteq> 0 \<and> a <s b) \<or>
         (TO inst AND 2 \<noteq> 0 \<and> b <s a) \<or>
         (TO inst AND 4 \<noteq> 0 \<and> a = b) \<or>
         (TO inst AND 8 \<noteq> 0 \<and> sint a - sint b = sint (a - b)) \<or>
         (TO inst AND 16 \<noteq> 0 \<and> sint a - sint b \<noteq> sint (a - b)))"
    unfolding twx_trap_taken_def fx twx_fixups cm
    by (simp add: Let_def cond_after_cmp32 reg_defs ucast_scast16 del: cond_holds.simps)
  then show ?thesis
    using code by (simp add: Let_def)
qed

text \<open>
  C2 at failing inputs: \<^verbatim>\<open>tw 24, r3, r4\<close>. The handler compiles the instruction,
  compares the two registers once, and binds to the trap path the branches on \<^verbatim>\<open>CC_VC\<close>
  and \<^verbatim>\<open>CC_VS\<close>, the overflow flag clear and set. The emitted code takes the trap path
  when the registers are equal, when \<^verbatim>\<open>r3\<close> is the greater and when \<^verbatim>\<open>r3\<close> is the
  less (signed and unsigned alike): no two of the five relations hold between them for
  all three pairs, so whatever two relations bits 3 and 4 of \<^verbatim>\<open>TO\<close> select, the code
  traps where neither holds. With equal registers none of signed less, signed greater,
  unsigned less and unsigned greater holds.
\<close>

theorem twx_traps_on_overflow_flag:
  "\<exists>code. twx gekko False False js0 (inst0\<lparr>OPCD := 31, TO := 24, RA := 3, RB := 4\<rparr>) = Some code \<and>
     tw_compare code = CMPr (gpr_R 3) (gpr_R 4) \<and>
     tw_fixups code = [CC_VC, CC_VS] \<and>
     twx_trap_taken code (gpr_state (\<lambda>i. 0)) \<and>
     twx_trap_taken code (gpr_state (\<lambda>i. if i = 3 then 1 else 0)) \<and>
     twx_trap_taken code (gpr_state (\<lambda>i. if i = 4 then 1 else 0))"
  by (simp add: twx_def Let_def inst0_def twx_conditions_def upt_rec twx_trap_taken_def
      reg_defs gpr_state_def)

section \<open>Fusing two reads of the time base\<close>

lemma take_drop_32: "take_bit 32 (drop_bit 32 (x::u64)) = drop_bit 32 x"
  by (rule bit_word_eqI) (auto simp add: bit_simps dest: bit_imp_le_length)

lemma gpr_after:
  "rd_reg (exec_instr (MOVr (gpr_R d) (Wreg (Tmp 1))) t) (gpr_R d) = take_bit 32 (regs t (Tmp 1))"
  "rd_reg (exec_instr (LSR (EncodeRegTo64 (gpr_R d)) (Xreg (Tmp 1)) 32) t) (gpr_R d) =
     drop_bit 32 (regs t (Tmp 1))"
  "n \<noteq> d \<Longrightarrow> rd_reg (exec_instr (MOVr (gpr_R n) (Wreg (Tmp 1))) t) (gpr_R d) = rd_reg t (gpr_R d)"
  "n \<noteq> d \<Longrightarrow> rd_reg (exec_instr (LSR (EncodeRegTo64 (gpr_R n)) (Xreg (Tmp 1)) 32) t) (gpr_R d) =
     rd_reg t (gpr_R d)"
  "regs (exec_instr (MOVr (gpr_R n) (Wreg (Tmp 1))) t) (Tmp 1) = regs t (Tmp 1)"
  "regs (exec_instr (LSR (EncodeRegTo64 (gpr_R n)) (Xreg (Tmp 1)) 32) t) (Tmp 1) = regs t (Tmp 1)"
  by (simp_all add: reg_defs take_drop_32)

lemma mftb_fields:
  "spr_index (mftb 3 268) = 268" "spr_index (mftb 4 268) = 268" "spr_index (mftb 4 269) = 269"
  "OPCD (mftb d spr) = 31" "SUBOP10 (mftb d spr) = 371" "RD (mftb d spr) = d"
  "SPR_TL gekko = 268" "SPR_TU gekko = 269"
  by (simp_all add: mftb_def spr_index_def inst0_def gekko_def)

text \<open>
  C7, as the code has it. In the time base case of \<^verbatim>\<open>mfspr\<close> (the instruction reads
  \<^verbatim>\<open>SPR_TL\<close> or \<^verbatim>\<open>SPR_TU\<close>), the fusion fires exactly when
  \<^verbatim>\<open>CanMergeNextInstructions(1)\<close> holds and the next instruction is an \<^verbatim>\<open>mftb\<close> (opcode
  31, subopcode 371) that reads \<^verbatim>\<open>SPR_TU\<close> or \<^verbatim>\<open>SPR_TL\<close>, either half and not only
  the other one, into another register. The counter \<open>v\<close> is computed once by the
  division sequence. When the fusion fires, two moves follow the sequence: each of the
  two registers gets the half of \<open>v\<close> that its own instruction names, \<^verbatim>\<open>skipInstructions\<close>
  becomes 1 and \<^verbatim>\<open>downcountAmount\<close> grows by 1. Otherwise one move follows, the
  register of the instruction gets its half, and \<^verbatim>\<open>js\<close> stays as it was.
\<close>

theorem timebase_fusion_fires_for_either_half:
  assumes "SPR_TL c \<noteq> SPR_TU c"
    and "spr_index inst = SPR_TL c \<or> spr_index inst = SPR_TU c"
  shows
    "(let merge = (can_merge \<and> OPCD next = 31 \<and> SUBOP10 next = 371 \<and>
                   (spr_index next = SPR_TU c \<or> spr_index next = SPR_TL c) \<and> RD next \<noteq> RD inst);
          code = fst (mfspr_timebase c can_merge js inst next);
          js' = snd (mfspr_timebase c can_merge js inst next);
          s' = exec code s;
          v = rd_reg s (Xreg (Tmp 2)) + rd_reg s (Xreg (Tmp 1)) div 12;
          half = (\<lambda>i. if spr_index i = SPR_TL c then take_bit 32 v else drop_bit 32 v)
      in rd_reg s' (gpr_R (RD inst)) = half inst \<and>
         (if merge
          then js' = js\<lparr>downcountAmount := downcountAmount js + 1, skipInstructions := 1\<rparr> \<and>
               rd_reg s' (gpr_R (RD next)) = half next \<and>
               take (length (mfspr_timebase_divide c)) code = mfspr_timebase_divide c \<and>
               length code = length (mfspr_timebase_divide c) + 2
          else js' = js \<and>
               take (length (mfspr_timebase_divide c)) code = mfspr_timebase_divide c \<and>
               length code = length (mfspr_timebase_divide c) + 1))"
proof -
  have d: "regs (exec (mfspr_timebase_divide c) s) (Tmp 1) =
           rd_reg s (Xreg (Tmp 2)) + rd_reg s (Xreg (Tmp 1)) div 12"
    using divide_exec [of c s] by simp
  show ?thesis
    using assms
    by (auto simp add: mfspr_timebase_def Let_def exec_append gpr_after d GetScopedReg_def
        simp del: exec_instr.simps One_nat_def)
qed


theorem timebase_fusion_fires_for_either_half_witness:
  "SPR_TL gekko \<noteq> SPR_TU gekko \<and>
   (spr_index (mftb 3 268) = SPR_TL gekko \<or> spr_index (mftb 3 268) = SPR_TU gekko) \<and>
   snd (mfspr_timebase gekko True js0 (mftb 3 268) (mftb 4 269)) =
     js0\<lparr>downcountAmount := 1, skipInstructions := 1\<rparr> \<and>
   rd_reg (exec (fst (mfspr_timebase gekko True js0 (mftb 3 268) (mftb 4 269)))
      (reg_state 0xC00000000)) (gpr_R 3) = 0 \<and>
   rd_reg (exec (fst (mfspr_timebase gekko True js0 (mftb 3 268) (mftb 4 269)))
      (reg_state 0xC00000000)) (gpr_R 4) = 13"
proof -
  have h: "SPR_TL gekko \<noteq> SPR_TU gekko"
    "spr_index (mftb 3 268) = SPR_TL gekko \<or> spr_index (mftb 3 268) = SPR_TU gekko"
    by (simp_all add: mftb_fields)
  have v: "rd_reg (reg_state 0xC00000000) (Xreg (Tmp 2)) +
           rd_reg (reg_state 0xC00000000) (Xreg (Tmp 1)) div 12 = 0xD00000000"
    by (simp add: reg_state_def)
  have j: "downcountAmount js0 = 0"
    by (simp add: js0_def)
  show ?thesis
    using h timebase_fusion_fires_for_either_half
      [OF h, of True "mftb 4 269" js0 "reg_state 0xC00000000", unfolded Let_def v]
    by (simp add: mftb_fields j)
qed

text \<open>
  C7 as stated, with the fusion only for the other half, fails: \<^verbatim>\<open>mftb r3\<close> followed by
  \<^verbatim>\<open>mftb r4\<close>, both reading the lower half \<^verbatim>\<open>SPR_TL\<close>, are fused.
\<close>

theorem timebase_fusion_same_half_counterexample:
  "spr_index (mftb 3 268) = SPR_TL gekko \<and> spr_index (mftb 4 268) = SPR_TL gekko \<and>
   skipInstructions (snd (mfspr_timebase gekko True js0 (mftb 3 268) (mftb 4 268))) = 1"
  by (simp add: mfspr_timebase_def Let_def mftb_fields)

end
